theory Spec2Isabelle
  imports Main
begin

section \<open>Python values, exceptions and callables\<close>

text \<open>The values that travel through a Keyword call as arguments and results.\<close>

datatype pyval = VNone | VBool bool | VInt int | VStr string

text \<open>
  A session instance is known to \<open>__call__\<close> only as an object: \<open>__call__\<close> stores
  it and compares it with \<open>is\<close>, and never looks into it.  So a session instance is a
  reference, the identity of the object, and \<open>is\<close> is the equality of references.
\<close>

datatype objref = Ref nat

fun digits :: "nat \<Rightarrow> string" where
  "digits n = (if n < 10 then [''0123456789'' ! n]
               else digits (n div 10) @ [''0123456789'' ! (n mod 10)])"

declare digits.simps [simp del]

text \<open>\<open>str(v)\<close>, which is what \<open>'%s' % v\<close> renders.\<close>

fun py_str :: "pyval \<Rightarrow> string" where
  "py_str VNone = ''None''"
| "py_str (VBool b) = (if b then ''True'' else ''False'')"
| "py_str (VInt i) = (if i < 0 then ''-'' @ digits (nat (- i)) else digits (nat i))"
| "py_str (VStr s) = s"

text \<open>
  \<open>xs[i]\<close> on a tuple or list: a negative index counts from the end, and an index out
  of range raises \<open>IndexError\<close> (the value \<open>None\<close> here).
\<close>

definition py_getitem :: "'a list \<Rightarrow> int \<Rightarrow> 'a option" where
  "py_getitem xs i =
     (if i < 0
      then (if - i \<le> int (length xs) then Some (xs ! nat (int (length xs) + i)) else None)
      else (if i < int (length xs) then Some (xs ! nat i) else None))"

text \<open>\<open>str.lower()\<close> on the ASCII letters of a class name.\<close>

definition lower_char :: "char \<Rightarrow> char" where
  "lower_char c =
     (case map_of (zip ''ABCDEFGHIJKLMNOPQRSTUVWXYZ'' ''abcdefghijklmnopqrstuvwxyz'') c of
        None \<Rightarrow> c | Some l \<Rightarrow> l)"

definition lower :: "string \<Rightarrow> string" where
  "lower s = map lower_char s"

text \<open>
  What \<open>sys.exc_info()\<close> holds of a raised exception: its class (with the names of the
  classes it derives from), its message and its traceback.
\<close>

record exc_info =
  exc_type :: string
  exc_bases :: "string list"
  exc_value :: string
  exc_traceback :: "string list"

definition isinstance_exc :: "exc_info \<Rightarrow> string \<Rightarrow> bool" where
  "isinstance_exc e cls = (cls = exc_type e \<or> cls \<in> set (exc_bases e))"

type_synonym kwargs = "(string \<times> pyval) list"

text \<open>
  A callable keyword implementation: it receives the library instance (its state),
  \<open>*args\<close> and \<open>**kwargs\<close>; it returns a value or raises, and leaves the library
  instance in a new state.
\<close>

type_synonym 'lib callable =
  "'lib \<Rightarrow> pyval list \<Rightarrow> kwargs \<Rightarrow> (exc_info + pyval) \<times> 'lib"

text \<open>Truth value testing of \<open>None\<close>, strings, lists and tuples.\<close>

definition truthy :: "'a list option \<Rightarrow> bool" where
  "truthy x = (case x of None \<Rightarrow> False | Some xs \<Rightarrow> xs \<noteq> [])"

text \<open>
  An insertion-ordered \<open>dict\<close> as a list of items: \<open>d[k] = v\<close> and \<open>d.pop(k)\<close>.
\<close>

fun dict_set :: "'k \<Rightarrow> 'v \<Rightarrow> ('k \<times> 'v) list \<Rightarrow> ('k \<times> 'v) list" where
  "dict_set k v [] = [(k, v)]"
| "dict_set k v ((k', v') # d) = (if k' = k then (k, v) # d else (k', v') # dict_set k v d)"

definition dict_pop :: "'k \<Rightarrow> ('k \<times> 'v) list \<Rightarrow> ('k \<times> 'v) list" where
  "dict_pop k d = filter (\<lambda>item. fst item \<noteq> k) d"

section \<open>Handlers, the keyword function and the library instance\<close>

text \<open>A session handler class \<open>hcls\<close>: its \<open>meta\<close> options and its error class.\<close>

record session_handler =
  auto_explicit :: bool
  identifier_name :: string
  plural_identifier_name :: string
  SessionError :: string

text \<open>
  A context handler class: \<open>__name__\<close>, the optional attribute \<open>auto_explicit\<close>
  (read with \<open>getattr(hcls, 'auto_explicit', False)\<close>) and its error class.
\<close>

record context_handler =
  handler_name :: string
  ctx_auto_explicit :: "bool option"
  ContextError :: string

definition getattr_auto_explicit :: "context_handler \<Rightarrow> bool" where
  "getattr_auto_explicit hcls = (case ctx_auto_explicit hcls of None \<Rightarrow> False | Some b \<Rightarrow> b)"

record Context =
  context_name :: string
  handler :: context_handler

text \<open>\<open>inspect\<close>'s \<open>ArgSpec(args, varargs, keywords, defaults)\<close>.\<close>

record ArgSpec =
  args :: "string list"
  varargs :: "string option"
  kwds :: "string option"
  defaults :: "pyval list option"

text \<open>An entry of \<open>func.argtypes\<close>: the \<open>isinstance\<close> test and the constructor call.\<close>

record argtype =
  isinstance :: "pyval \<Rightarrow> bool"
  construct :: "pyval \<Rightarrow> exc_info + pyval"

text \<open>
  A context specific implementation stored in \<open>func.contexts\<close>: a plain Python
  function, with the signature reflection reports for it and its body.
\<close>

record 'lib context_func =
  reflected :: ArgSpec
  context_body :: "'lib callable"

text \<open>
  The keyword function \<open>func\<close> the decorator layer hands to \<open>Keyword\<close>:
  \<open>func.__doc__\<close>, \<open>func.args\<close>, \<open>func.argspec\<close>, \<open>func.argtypes\<close>,
  \<open>func.contexts\<close> (in insertion order) and the function itself.
\<close>

record 'lib keyword_func =
  doc :: "string option"
  func_args :: "string list option"
  argspec :: ArgSpec
  argtypes :: "argtype list option"
  contexts :: "(Context \<times> 'lib context_func) list"
  body :: "'lib callable"

text \<open>
  The Test Library instance as \<open>Keyword\<close> uses it.  Its mutable state has the type
  \<open>'lib\<close> and is threaded through every call.  The handler implementations are not
  part of the keyword module, so their operations are parameters:
  \<^item> \<open>session_handlers\<close>: the \<open>(name, hcls)\<close> pairs, in declared order;
  \<^item> \<open>getattr_session ident\<close>: the object \<open>getattr(libinstance, ident)\<close> is for the
    identifier of a session handler, the current session, as a reference;
  \<^item> \<open>getattr_context ident\<close>: the value \<open>getattr(libinstance, ident)\<close> is for the
    identifier of a context handler, the current context, which \<open>__call__\<close> hands
    back to \<open>switch_\<close> in the restoration;
  \<^item> \<open>getattr_plural ident\<close>: the items of \<open>getattr(libinstance, plural_identifier)\<close>,
    alias and session instance;
  \<^item> \<open>switch ident v\<close>: \<open>getattr(libinstance, 'switch_' + ident)(v)\<close>, which returns
    or raises and leaves a new state;
  \<^item> \<open>active_contexts\<close>: \<open>libinstance.contexts\<close>.
\<close>

record 'lib library =
  session_handlers :: "(string \<times> session_handler) list"
  getattr_session :: "string \<Rightarrow> 'lib \<Rightarrow> objref"
  getattr_context :: "string \<Rightarrow> 'lib \<Rightarrow> pyval"
  getattr_plural :: "string \<Rightarrow> 'lib \<Rightarrow> (pyval \<times> objref) list"
  switch :: "string \<Rightarrow> pyval \<Rightarrow> 'lib \<Rightarrow> (exc_info + unit) \<times> 'lib"
  active_contexts :: "'lib \<Rightarrow> Context list"

record 'lib Keyword =
  name :: string
  func :: "'lib keyword_func"
  libinstance :: "'lib library"
  context_handlers :: "context_handler list"

text \<open>
  \<open>Keyword.__init__\<close>.  The source keeps \<open>context_handlers\<close> in a \<open>set\<close>, whose
  iteration order is fixed but not specified; the list below is one such order, and
  every statement about a call is made for an arbitrary \<open>Keyword\<close> record, so for
  every order.
\<close>

definition Keyword_init :: "string \<Rightarrow> 'lib keyword_func \<Rightarrow> 'lib library \<Rightarrow> 'lib Keyword" where
  "Keyword_init nm f lib =
     \<lparr> name = nm, func = f, libinstance = lib,
       context_handlers = remdups (map (\<lambda>item. handler (fst item)) (contexts f)) \<rparr>"

section \<open>Documentation and argument spec\<close>

text \<open>
  \<open>Keyword.__doc__\<close>.  \<open>textwrap.dedent\<close> is a parameter.  A docstring without a
  newline falls off the end of the property, which returns \<open>None\<close>.
\<close>

definition Keyword_doc :: "(string \<Rightarrow> string) \<Rightarrow> 'lib Keyword \<Rightarrow> string option" where
  "Keyword_doc dedent self =
     (case doc (func self) of
        None \<Rightarrow> None
      | Some d \<Rightarrow>
          if CHR 0x0A \<in> set d
          then (let first_line = takeWhile (\<lambda>c. c \<noteq> CHR 0x0A) d;
                    rest = drop 1 (dropWhile (\<lambda>c. c \<noteq> CHR 0x0A) d)
                in Some (first_line @ [CHR 0x0A] @ dedent rest))
          else None)"

text \<open>The positional part of \<open>Keyword.args\<close>: names, with defaults where they exist.\<close>

definition posargs_entries :: "string list \<Rightarrow> pyval list option \<Rightarrow> string list" where
  "posargs_entries posargs dflts =
     (if truthy dflts
      then map (\<lambda>(arg, defaults_index).
                  case py_getitem (case dflts of None \<Rightarrow> [] | Some ds \<Rightarrow> ds) defaults_index of
                    None \<Rightarrow> arg
                  | Some dflt \<Rightarrow> arg @ ''='' @ py_str dflt)
               (zip posargs [- int (length posargs) .. - 1])
      else posargs)"

definition any_auto_explicit :: "'lib Keyword \<Rightarrow> bool" where
  "any_auto_explicit self =
     (list_ex (\<lambda>hcls. auto_explicit hcls) (map snd (session_handlers (libinstance self)))
      \<or> list_ex getattr_auto_explicit (context_handlers self))"

definition Keyword_args :: "'lib Keyword \<Rightarrow> string list" where
  "Keyword_args self =
     (if truthy (func_args (func self))
      then (case func_args (func self) of None \<Rightarrow> [] | Some xs \<Rightarrow> xs)
      else (let spec = argspec (func self);
                posargs = drop 1 (args spec)
            in posargs_entries posargs (defaults spec)
               @ (case varargs spec of
                    None \<Rightarrow> []
                  | Some v \<Rightarrow> if v \<noteq> [] then [''*'' @ v] else [])
               @ (if truthy (kwds spec)
                  then (case kwds spec of None \<Rightarrow> [] | Some k \<Rightarrow> [''**'' @ k])
                  else if any_auto_explicit self then [''**options''] else [])))"

section \<open>The call protocol\<close>

text \<open>
  \<open>Keyword.__call__\<close> talks to the library instance and to the implementation.  Each
  such call is written to a log, in order, so that statements about what a call
  attempts, and in which order, can be made: a switch of the session phase, a switch of
  the context phase, the invocation of the implementation (\<open>None\<close> for \<open>self.func\<close>,
  otherwise the context whose implementation was chosen, with the positional and the
  named arguments passed), and the switches of the restoration.
\<close>

datatype event =
    SessionSwitch string pyval
  | ContextSwitch string pyval
  | Invoke "Context option" "pyval list" kwargs
  | ContextRestore string pyval
  | SessionRestore string pyval

type_synonym 'lib world = "'lib \<times> event list"

text \<open>\<open>switch = getattr(self.libinstance, 'switch_' + identifier); switch(v)\<close>\<close>

definition call_switch ::
  "'lib library \<Rightarrow> (string \<Rightarrow> pyval \<Rightarrow> event) \<Rightarrow> string \<Rightarrow> pyval \<Rightarrow> 'lib world
   \<Rightarrow> (exc_info + unit) \<times> 'lib world" where
  "call_switch L tag identifier v w =
     (case switch L identifier v (fst w) of
        (r, lib') \<Rightarrow> (r, (lib', snd w @ [tag identifier v])))"

type_synonym session_map = "((string \<times> string) \<times> objref) list"
type_synonym context_map = "(string \<times> pyval) list"

text \<open>
  The loop over \<open>self.libinstance.session_handlers\<close>.  \<open>Inl\<close>: an exception that is
  not the handler's \<open>SessionError\<close> left \<open>__call__\<close> at once.  \<open>Inr\<close>: the loop ended
  or met \<open>break\<close>, with \<open>error\<close>, what is left of \<open>kwargs\<close>, and \<open>current_sessions\<close>.
\<close>

fun switch_sessions ::
  "'lib library \<Rightarrow> session_handler list \<Rightarrow> kwargs \<Rightarrow> session_map \<Rightarrow> 'lib world
   \<Rightarrow> (exc_info \<times> 'lib world) + (exc_info option \<times> kwargs \<times> session_map \<times> 'lib world)" where
  "switch_sessions L [] kw current_sessions w = Inr (None, kw, current_sessions, w)"
| "switch_sessions L (hcls # rest) kw current_sessions w =
     (if \<not> auto_explicit hcls then switch_sessions L rest kw current_sessions w
      else
        (case map_of kw (identifier_name hcls) of
           None \<Rightarrow> switch_sessions L rest kw current_sessions w
         | Some sname \<Rightarrow>
             (let previous = getattr_session L (identifier_name hcls) (fst w) in
              case call_switch L SessionSwitch (identifier_name hcls) sname w of
                (Inl e, w') \<Rightarrow>
                  if isinstance_exc e (SessionError hcls)
                  then Inr (Some e, dict_pop (identifier_name hcls) kw, current_sessions, w')
                  else Inl (e, w')
              | (Inr u, w') \<Rightarrow>
                  switch_sessions L rest (dict_pop (identifier_name hcls) kw)
                    (dict_set (identifier_name hcls, plural_identifier_name hcls) previous
                       current_sessions) w')))"

text \<open>The loop over \<open>self.context_handlers\<close>.\<close>

fun switch_contexts ::
  "'lib library \<Rightarrow> context_handler list \<Rightarrow> kwargs \<Rightarrow> context_map \<Rightarrow> 'lib world
   \<Rightarrow> (exc_info \<times> 'lib world) + (exc_info option \<times> kwargs \<times> context_map \<times> 'lib world)" where
  "switch_contexts L [] kw current_contexts w = Inr (None, kw, current_contexts, w)"
| "switch_contexts L (hcls # rest) kw current_contexts w =
     (if \<not> getattr_auto_explicit hcls then switch_contexts L rest kw current_contexts w
      else
        (case map_of kw (lower (handler_name hcls)) of
           None \<Rightarrow> switch_contexts L rest kw current_contexts w
         | Some ctxname \<Rightarrow>
             (let previous = getattr_context L (lower (handler_name hcls)) (fst w) in
              case call_switch L ContextSwitch (lower (handler_name hcls)) ctxname w of
                (Inl e, w') \<Rightarrow>
                  if isinstance_exc e (ContextError hcls)
                  then Inr (Some e, dict_pop (lower (handler_name hcls)) kw, current_contexts, w')
                  else Inl (e, w')
              | (Inr u, w') \<Rightarrow>
                  switch_contexts L rest (dict_pop (lower (handler_name hcls)) kw)
                    (dict_set (lower (handler_name hcls)) previous current_contexts) w')))"

text \<open>
  The casts of \<open>func.argtypes\<close>, over \<open>zip(args, func.argtypes)\<close>.  A constructor that
  raises is not inside any \<open>try\<close>.
\<close>

fun cast_args :: "pyval list \<Rightarrow> argtype list \<Rightarrow> exc_info + pyval list" where
  "cast_args (arg # rest) (t # ts) =
     (case (if isinstance t arg then Inr arg else construct t arg) of
        Inl e \<Rightarrow> Inl e
      | Inr arg' \<Rightarrow>
          (case cast_args rest ts of Inl e \<Rightarrow> Inl e | Inr casted \<Rightarrow> Inr (arg' # casted)))"
| "cast_args [] ts = Inr []"
| "cast_args rest [] = Inr []"

definition typed_args :: "'lib keyword_func \<Rightarrow> pyval list \<Rightarrow> exc_info + pyval list" where
  "typed_args f a =
     (if truthy (argtypes f)
      then (let ts = (case argtypes f of None \<Rightarrow> [] | Some ts \<Rightarrow> ts) in
            case cast_args a ts of
              Inl e \<Rightarrow> Inl e
            | Inr casted \<Rightarrow> Inr (casted @ drop (length ts) a))
      else Inr a)"

text \<open>
  The context specific implementation: every item of \<open>func.contexts\<close> whose context is
  active rebinds \<open>func\<close>.  \<open>None\<close> stands for \<open>self.func\<close> itself.
\<close>

definition resolve ::
  "(Context \<times> 'lib context_func) list \<Rightarrow> Context list \<Rightarrow> (Context \<times> 'lib context_func) option" where
  "resolve items active =
     foldl (\<lambda>f item. if fst item \<in> set active then Some item else f) None items"

text \<open>\<open>func(self.libinstance, *a, **kw)\<close>\<close>

definition invoke ::
  "'lib Keyword \<Rightarrow> (Context \<times> 'lib context_func) option \<Rightarrow> pyval list \<Rightarrow> kwargs \<Rightarrow> 'lib world
   \<Rightarrow> (exc_info + pyval) \<times> 'lib world" where
  "invoke self f a kw w =
     (case (case f of None \<Rightarrow> body (func self) | Some item \<Rightarrow> context_body (snd item))
             (fst w) a kw of
        (r, lib') \<Rightarrow> (r, (lib', snd w @ [Invoke (map_option fst f) a kw])))"

text \<open>
  \<open>for name in self.func.argspec.args[1 + len(args):]: if name in kwargs:
  posargs.append(kwargs.pop(name))\<close>
\<close>

fun drain :: "string list \<Rightarrow> kwargs \<Rightarrow> pyval list \<times> kwargs" where
  "drain [] kw = ([], kw)"
| "drain (nm # names) kw =
     (case map_of kw nm of
        None \<Rightarrow> drain names kw
      | Some v \<Rightarrow> (case drain names (dict_pop nm kw) of (posargs, kw') \<Rightarrow> (v # posargs, kw')))"

text \<open>
  Lines 206 to 214: the positional arguments and the named arguments the implementation
  is called with when \<open>**kwargs\<close> are resolved.  Named arguments for the still
  unfilled names of \<open>self.func.argspec.args\<close> become positional, in the order of
  these names; what is left becomes \<open>'key=value'\<close> strings, unless its key is one of
  \<open>self.func.argspec.args\<close>: such an item stays in \<open>kwargs\<close>.
\<close>

definition reshape :: "string list \<Rightarrow> pyval list \<Rightarrow> kwargs \<Rightarrow> pyval list \<times> kwargs" where
  "reshape argspec_args a kw =
     (case drain (drop (1 + length a) argspec_args) kw of
        (posargs, kw') \<Rightarrow>
          (a @ posargs
             @ map (\<lambda>item. VStr (fst item @ ''='' @ py_str (snd item)))
                 (filter (\<lambda>item. fst item \<notin> set argspec_args) kw'),
           filter (\<lambda>item. fst item \<in> set argspec_args) kw'))"

text \<open>
  The call of the implementation.  With \<open>self.func.argspec.keywords\<close> or without
  \<open>kwargs\<close> it is called as it is, under \<open>except Exception\<close>: an exception that is
  not an \<open>Exception\<close> leaves \<open>__call__\<close> at once (\<open>Inl\<close>).  Otherwise it is called
  with the reshaped arguments, under a bare \<open>except\<close>.
\<close>

definition dispatch ::
  "'lib Keyword \<Rightarrow> (Context \<times> 'lib context_func) option \<Rightarrow> pyval list \<Rightarrow> kwargs \<Rightarrow> 'lib world
   \<Rightarrow> (exc_info \<times> 'lib world) + ((exc_info + pyval) \<times> 'lib world)" where
  "dispatch self f a kw w =
     (if truthy (kwds (argspec (func self))) \<or> kw = []
      then (case invoke self f a kw w of
              (Inl e, w') \<Rightarrow> if isinstance_exc e ''Exception'' then Inr (Inl e, w') else Inl (e, w')
            | (Inr result, w') \<Rightarrow> Inr (Inr result, w'))
      else (case reshape (args (argspec (func self))) a kw of
              (a', kw') \<Rightarrow> Inr (invoke self f a' kw' w)))"

text \<open>Lines 186 to 221: the casts, the choice of the implementation and its call.\<close>

definition call_func ::
  "'lib Keyword \<Rightarrow> pyval list \<Rightarrow> kwargs \<Rightarrow> 'lib world
   \<Rightarrow> (exc_info \<times> 'lib world) + ((exc_info + pyval) \<times> 'lib world)" where
  "call_func self a kw w =
     (case typed_args (func self) a of
        Inl e \<Rightarrow> Inl (e, w)
      | Inr a' \<Rightarrow>
          dispatch self
            (resolve (contexts (func self)) (active_contexts (libinstance self) (fst w))) a' kw w)"

text \<open>
  Everything before the restoration.  \<open>Inl\<close>: an exception left \<open>__call__\<close> before the
  restoration.  \<open>Inr\<close>: the restoration is reached with \<open>error\<close> (\<open>Inl\<close>) or \<open>result\<close>
  (\<open>Inr\<close>), \<open>current_sessions\<close> and \<open>current_contexts\<close>.
\<close>

definition switch_and_call ::
  "'lib Keyword \<Rightarrow> pyval list \<Rightarrow> kwargs \<Rightarrow> 'lib
   \<Rightarrow> (exc_info \<times> 'lib world) + ((exc_info + pyval) \<times> session_map \<times> context_map \<times> 'lib world)" where
  "switch_and_call self a kw lib =
     (case switch_sessions (libinstance self) (map snd (session_handlers (libinstance self)))
             kw [] (lib, []) of
        Inl x \<Rightarrow> Inl x
      | Inr (error, kw1, current_sessions, w1) \<Rightarrow>
          (case error of
             Some e \<Rightarrow> Inr (Inl e, current_sessions, [], w1)
           | None \<Rightarrow>
               (case switch_contexts (libinstance self) (context_handlers self) kw1 [] w1 of
                  Inl x \<Rightarrow> Inl x
                | Inr (error', kw2, current_contexts, w2) \<Rightarrow>
                    (case error' of
                       Some e \<Rightarrow> Inr (Inl e, current_sessions, current_contexts, w2)
                     | None \<Rightarrow>
                         (case call_func self a kw2 w2 of
                            Inl x \<Rightarrow> Inl x
                          | Inr (r, w3) \<Rightarrow> Inr (r, current_sessions, current_contexts, w3))))))"

text \<open>The restoration: no exception is caught here.\<close>

fun restore_contexts ::
  "'lib library \<Rightarrow> context_map \<Rightarrow> 'lib world \<Rightarrow> (exc_info + unit) \<times> 'lib world" where
  "restore_contexts L [] w = (Inr (), w)"
| "restore_contexts L ((identifier, ctxname) # rest) w =
     (case call_switch L ContextRestore identifier ctxname w of
        (Inl e, w') \<Rightarrow> (Inl e, w')
      | (Inr u, w') \<Rightarrow> restore_contexts L rest w')"

text \<open>
  \<open>for sname, sinstance in dictitems(getattr(self.libinstance, plural_identifier)):
  if sinstance is session: switch(sname)\<close>.  Both \<open>sinstance\<close> and \<open>session\<close> are
  references, so the equality below is the identity test of the source.
\<close>

fun switch_back ::
  "'lib library \<Rightarrow> string \<Rightarrow> objref \<Rightarrow> (pyval \<times> objref) list \<Rightarrow> 'lib world
   \<Rightarrow> (exc_info + unit) \<times> 'lib world" where
  "switch_back L identifier session [] w = (Inr (), w)"
| "switch_back L identifier session ((sname, sinstance) # items) w =
     (if sinstance = session
      then (case call_switch L SessionRestore identifier sname w of
              (Inl e, w') \<Rightarrow> (Inl e, w')
            | (Inr u, w') \<Rightarrow> switch_back L identifier session items w')
      else switch_back L identifier session items w)"

fun restore_sessions ::
  "'lib library \<Rightarrow> session_map \<Rightarrow> 'lib world \<Rightarrow> (exc_info + unit) \<times> 'lib world" where
  "restore_sessions L [] w = (Inr (), w)"
| "restore_sessions L (((identifier, plural_identifier), session) # rest) w =
     (case switch_back L identifier session (getattr_plural L plural_identifier (fst w)) w of
        (Inl e, w') \<Rightarrow> (Inl e, w')
      | (Inr u, w') \<Rightarrow> restore_sessions L rest w')"

definition restore ::
  "'lib library \<Rightarrow> context_map \<Rightarrow> session_map \<Rightarrow> 'lib world \<Rightarrow> (exc_info + unit) \<times> 'lib world" where
  "restore L current_contexts current_sessions w =
     (case restore_contexts L current_contexts w of
        (Inl e, w') \<Rightarrow> (Inl e, w')
      | (Inr u, w') \<Rightarrow> restore_sessions L current_sessions w')"

text \<open>
  \<open>Keyword.__call__\<close>: the value returned (\<open>Inr\<close>) or the exception raised (\<open>Inl\<close>),
  the state the library instance is left in, and the log of the call.
\<close>

definition Keyword_call ::
  "'lib Keyword \<Rightarrow> pyval list \<Rightarrow> kwargs \<Rightarrow> 'lib \<Rightarrow> (exc_info + pyval) \<times> 'lib world" where
  "Keyword_call self a kw lib =
     (case switch_and_call self a kw lib of
        Inl (e, w) \<Rightarrow> (Inl e, w)
      | Inr (outcome, current_sessions, current_contexts, w) \<Rightarrow>
          (case restore (libinstance self) current_contexts current_sessions w of
             (Inl e, w') \<Rightarrow> (Inl e, w')
           | (Inr u, w') \<Rightarrow> (outcome, w')))"

section \<open>The contract of the handlers\<close>







section \<open>A library instance after the spec\<close>

text \<open>
  Modelled from the spec: the state the library instance keeps for its handlers, which
  lives outside the keyword module.  The spec gives every session handler kind a
  current value and a plural collection (alias to session instance), and every context
  handler kind a current value; \<open>current_session\<close> and \<open>current_context\<close> are keyed
  by the identifier, \<open>collections\<close> by the plural identifier.  \<open>own\<close> is whatever
  else the library instance holds for its keywords.
\<close>

record libstate =
  current_session :: "string \<Rightarrow> objref"
  current_context :: "string \<Rightarrow> pyval"
  collections :: "string \<Rightarrow> (pyval \<times> objref) list"
  own :: "pyval list"

text \<open>
  Modelled from the spec: the switch operation of a handler kind,
  \<open>switch(name) -> void | SessionSwitchError\<close> and
  \<open>switch(name) -> void | ContextSwitchError\<close>.  A session switch makes the session
  registered under the alias the current one and raises the kind's error for an
  unknown alias; a context switch makes the named context the current one and raises
  the kind's error for a value that is not a name.  An identifier of no handler has no
  \<open>switch_\<close> attribute.
\<close>

definition spec_switch ::
  "session_handler list \<Rightarrow> context_handler list \<Rightarrow> string \<Rightarrow> pyval \<Rightarrow> libstate
   \<Rightarrow> (exc_info + unit) \<times> libstate" where
  "spec_switch shs chs identifier v lib =
     (case find (\<lambda>h. identifier_name h = identifier) shs of
        Some h \<Rightarrow>
          (case map_of (collections lib (plural_identifier_name h)) v of
             None \<Rightarrow>
               (Inl \<lparr> exc_type = SessionError h, exc_bases = [''Exception''],
                      exc_value = py_str v, exc_traceback = [''switch_'' @ identifier] \<rparr>, lib)
           | Some inst \<Rightarrow>
               (Inr (), lib\<lparr> current_session := (current_session lib)(identifier := inst) \<rparr>))
      | None \<Rightarrow>
          (case find (\<lambda>h. lower (handler_name h) = identifier) chs of
             Some h \<Rightarrow>
               (case v of
                  VStr n \<Rightarrow>
                    (Inr (), lib\<lparr> current_context := (current_context lib)(identifier := v) \<rparr>)
                | _ \<Rightarrow>
                  (Inl \<lparr> exc_type = ContextError h, exc_bases = [''Exception''],
                         exc_value = py_str v, exc_traceback = [''switch_'' @ identifier] \<rparr>, lib))
           | None \<Rightarrow>
               (Inl \<lparr> exc_type = ''AttributeError'', exc_bases = [''Exception''],
                      exc_value = ''switch_'' @ identifier, exc_traceback = [] \<rparr>, lib)))"

text \<open>
  Modelled from the spec: the currently active contexts, one for every context handler
  kind whose current value is a name.
\<close>

definition spec_contexts :: "context_handler list \<Rightarrow> libstate \<Rightarrow> Context list" where
  "spec_contexts chs lib =
     concat (map (\<lambda>h. case current_context lib (lower (handler_name h)) of
                         VStr n \<Rightarrow> [\<lparr> context_name = n, handler = h \<rparr>]
                       | _ \<Rightarrow> []) chs)"

text \<open>
  Modelled from the spec: the library instance with the session handlers \<open>shs\<close> and
  the context handlers \<open>chs\<close>.
\<close>

definition spec_library ::
  "(string \<times> session_handler) list \<Rightarrow> context_handler list \<Rightarrow> libstate library" where
  "spec_library shs chs =
     \<lparr> session_handlers = shs,
       getattr_session = (\<lambda>identifier lib. current_session lib identifier),
       getattr_context = (\<lambda>identifier lib. current_context lib identifier),
       getattr_plural = (\<lambda>plural_identifier lib. collections lib plural_identifier),
       switch = spec_switch (map snd shs) chs,
       active_contexts = spec_contexts chs \<rparr>"

section \<open>Example libraries and keywords\<close>

definition connection_handler :: session_handler where
  "connection_handler =
     \<lparr> auto_explicit = True, identifier_name = ''connection'',
       plural_identifier_name = ''connections'', SessionError = ''ConnectionError'' \<rparr>"

definition mode_handler :: context_handler where
  "mode_handler =
     \<lparr> handler_name = ''Mode'', ctx_auto_explicit = Some True, ContextError = ''ModeError'' \<rparr>"

definition demo_library :: "libstate library" where
  "demo_library = spec_library [(''Connection'', connection_handler)] [mode_handler]"

text \<open>
  Two connections \<open>A\<close> and \<open>B\<close> (the objects \<open>Ref 1\<close> and \<open>Ref 2\<close>), \<open>A\<close> the
  current one; the mode \<open>slow\<close>.  \<open>Ref 0\<close> is the object \<open>None\<close>.
\<close>

definition demo_state :: libstate where
  "demo_state =
     \<lparr> current_session = (\<lambda>identifier. Ref 0)(''connection'' := Ref 1),
       current_context = (\<lambda>identifier. VNone)(''mode'' := VStr ''slow''),
       collections = (\<lambda>plural_identifier. [])
         (''connections'' := [(VStr ''A'', Ref 1), (VStr ''B'', Ref 2)]),
       own = [] \<rparr>"

text \<open>An implementation that returns the number of its positional arguments.\<close>

definition count_body :: "libstate callable" where
  "count_body lib a kw = (Inr (VInt (int (length a))), lib)"

text \<open>\<open>def send(self, x, y=1, z=2, **options)\<close>, with a one-line docstring.\<close>

definition send_keyword :: "libstate Keyword" where
  "send_keyword =
     Keyword_init ''Send''
       \<lparr> doc = Some ''Send the data.'', func_args = None,
         argspec = \<lparr> args = [''self'', ''x'', ''y'', ''z''], varargs = None,
                     kwds = Some ''options'', defaults = Some [VInt 1, VInt 2] \<rparr>,
         argtypes = None, contexts = [], body = count_body \<rparr>
       demo_library"

text \<open>\<open>def log(self, level, *rest)\<close>\<close>

definition log_keyword :: "libstate Keyword" where
  "log_keyword =
     Keyword_init ''Log''
       \<lparr> doc = None, func_args = None,
         argspec = \<lparr> args = [''self'', ''level''], varargs = Some ''rest'',
                     kwds = None, defaults = None \<rparr>,
         argtypes = None, contexts = [], body = count_body \<rparr>
       demo_library"

text \<open>The same library instance with no mode active.\<close>

definition idle_state :: libstate where
  "idle_state =
     demo_state\<lparr> current_context := (current_context demo_state)(''mode'' := VNone) \<rparr>"

text \<open>
  The same library instance with a current connection (the object \<open>Ref 3\<close>) that is
  registered under no alias.
\<close>

definition orphan_state :: libstate where
  "orphan_state =
     demo_state\<lparr> current_session := (current_session demo_state)(''connection'' := Ref 3) \<rparr>"

definition value_error :: exc_info where
  "value_error =
     \<lparr> exc_type = ''ValueError'', exc_bases = [''Exception''],
       exc_value = ''no such item'', exc_traceback = [''fetch''] \<rparr>"

text \<open>An implementation that notes the attempt and raises \<open>ValueError\<close>.\<close>

definition raising_body :: "libstate callable" where
  "raising_body lib a kw = (Inl value_error, lib\<lparr> own := VStr ''tried'' # own lib \<rparr>)"

text \<open>\<open>def fetch(self, item)\<close>, which raises \<open>ValueError\<close>.\<close>

definition fetch_keyword :: "libstate Keyword" where
  "fetch_keyword =
     Keyword_init ''Fetch''
       \<lparr> doc = None, func_args = None,
         argspec = \<lparr> args = [''self'', ''item''], varargs = None, kwds = None,
                     defaults = None \<rparr>,
         argtypes = None, contexts = [], body = raising_body \<rparr>
       demo_library"

text \<open>\<open>def put(self, x, y)\<close>\<close>

definition put_keyword :: "libstate Keyword" where
  "put_keyword =
     Keyword_init ''Put''
       \<lparr> doc = None, func_args = None,
         argspec = \<lparr> args = [''self'', ''x'', ''y''], varargs = None, kwds = None,
                     defaults = None \<rparr>,
         argtypes = None, contexts = [], body = count_body \<rparr>
       demo_library"

text \<open>
  \<open>show\<close>, with an implementation for the context \<open>fast\<close> and one for the context
  \<open>slow\<close> of the handler \<open>Mode\<close>: \<open>def show(self)\<close> returns its name in \<open>fast\<close>, and
  \<open>def show(self, **opts)\<close> raises \<open>ValueError\<close> in \<open>slow\<close>.
\<close>

definition fast_context :: Context where
  "fast_context = \<lparr> context_name = ''fast'', handler = mode_handler \<rparr>"

definition slow_context :: Context where
  "slow_context = \<lparr> context_name = ''slow'', handler = mode_handler \<rparr>"

definition show_fast :: "libstate context_func" where
  "show_fast =
     \<lparr> reflected = \<lparr> args = [''self''], varargs = None, kwds = None, defaults = None \<rparr>,
       context_body = (\<lambda>lib a kw. (Inr (VStr ''fast''), lib)) \<rparr>"

definition show_slow :: "libstate context_func" where
  "show_slow =
     \<lparr> reflected = \<lparr> args = [''self''], varargs = None, kwds = Some ''opts'',
                       defaults = None \<rparr>,
       context_body = raising_body \<rparr>"

definition show_func :: "libstate keyword_func" where
  "show_func =
     \<lparr> doc = None, func_args = None,
       argspec = \<lparr> args = [''self''], varargs = None, kwds = None, defaults = None \<rparr>,
       argtypes = None,
       contexts = [(fast_context, show_fast), (slow_context, show_slow)],
       body = count_body \<rparr>"

definition show_keyword :: "libstate Keyword" where
  "show_keyword = Keyword_init ''Show'' show_func demo_library"

text \<open>
  \<open>tell\<close>, with the same context specific implementations under
  \<open>def tell(self, **options)\<close>.
\<close>

definition tell_keyword :: "libstate Keyword" where
  "tell_keyword =
     Keyword_init ''Tell''
       (show_func\<lparr> argspec := \<lparr> args = [''self''], varargs = None, kwds = Some ''options'',
                                  defaults = None \<rparr> \<rparr>)
       demo_library"

text \<open>A library instance with a second session handler, which has no sessions.\<close>

definition channel_handler :: session_handler where
  "channel_handler =
     \<lparr> auto_explicit = True, identifier_name = ''channel'',
       plural_identifier_name = ''channels'', SessionError = ''ChannelError'' \<rparr>"

definition duo_library :: "libstate library" where
  "duo_library =
     spec_library [(''Connection'', connection_handler), (''Channel'', channel_handler)]
       [mode_handler]"

definition duo_show_keyword :: "libstate Keyword" where
  "duo_show_keyword = Keyword_init ''Show'' show_func duo_library"

text \<open>
  An argument type for numbers: a number is an instance, a truth value is converted,
  and the constructor raises \<open>ValueError\<close> for anything else.
\<close>

definition number_argtype :: argtype where
  "number_argtype =
     \<lparr> isinstance = (\<lambda>v. case v of VInt i \<Rightarrow> True | _ \<Rightarrow> False),
       construct = (\<lambda>v. case v of
                          VBool b \<Rightarrow> Inr (VInt (if b then 1 else 0))
                        | VInt i \<Rightarrow> Inr (VInt i)
                        | _ \<Rightarrow> Inl \<lparr> exc_type = ''ValueError'', exc_bases = [''Exception''],
                                    exc_value = py_str v, exc_traceback = [''number''] \<rparr>) \<rparr>"

text \<open>\<open>def wait(self, seconds)\<close>, with the argument type above for \<open>seconds\<close>.\<close>

definition wait_keyword :: "libstate Keyword" where
  "wait_keyword =
     Keyword_init ''Wait''
       \<lparr> doc = None, func_args = None,
         argspec = \<lparr> args = [''self'', ''seconds''], varargs = None, kwds = None,
                     defaults = None \<rparr>,
         argtypes = Some [number_argtype], contexts = [], body = count_body \<rparr>
       demo_library"

text \<open>\<open>def stop(self)\<close>, which is interrupted: \<open>KeyboardInterrupt\<close> is no \<open>Exception\<close>.\<close>

definition keyboard_interrupt :: exc_info where
  "keyboard_interrupt =
     \<lparr> exc_type = ''KeyboardInterrupt'', exc_bases = [''BaseException''],
       exc_value = [], exc_traceback = [''stop''] \<rparr>"

definition stop_keyword :: "libstate Keyword" where
  "stop_keyword =
     Keyword_init ''Stop''
       \<lparr> doc = None, func_args = None,
         argspec = \<lparr> args = [''self''], varargs = None, kwds = None, defaults = None \<rparr>,
         argtypes = None, contexts = [],
         body = (\<lambda>lib a kw. (Inl keyboard_interrupt, lib)) \<rparr>
       demo_library"

text \<open>
  A library instance whose state is the number of switches made so far, and whose
  connection is lost after the first one: every later switch raises \<open>IOError\<close>.  The
  current connection is always the object \<open>Ref 1\<close>, registered as \<open>A\<close>.
\<close>

definition lost_error :: exc_info where
  "lost_error =
     \<lparr> exc_type = ''IOError'', exc_bases = [''Exception''],
       exc_value = ''connection lost'', exc_traceback = [''switch_connection''] \<rparr>"

definition flaky_library :: "nat library" where
  "flaky_library =
     \<lparr> session_handlers = [(''Connection'', connection_handler)],
       getattr_session = (\<lambda>identifier n. Ref 1),
       getattr_context = (\<lambda>identifier n. VNone),
       getattr_plural = (\<lambda>plural_identifier n. [(VStr ''A'', Ref 1)]),
       switch = (\<lambda>identifier v n. if n = 0 then (Inr (), Suc n) else (Inl lost_error, Suc n)),
       active_contexts = (\<lambda>n. []) \<rparr>"

text \<open>\<open>def fetch(self, item)\<close> on that library instance; it raises \<open>ValueError\<close>.\<close>

definition flaky_fetch_keyword :: "nat Keyword" where
  "flaky_fetch_keyword =
     Keyword_init ''Fetch''
       \<lparr> doc = None, func_args = None,
         argspec = \<lparr> args = [''self'', ''item''], varargs = None, kwds = None,
                     defaults = None \<rparr>,
         argtypes = None, contexts = [], body = (\<lambda>n a kw. (Inl value_error, n)) \<rparr>
       flaky_library"

section \<open>Documentation and argument spec: theorems\<close>

lemma posargs_entries_length: "length (posargs_entries posargs dflts) = length posargs"
  by (simp add: posargs_entries_def)

lemma posargs_entries_nth:
  assumes "i < length posargs"
  shows "posargs_entries posargs dflts ! i =
     (let ds = (case dflts of None \<Rightarrow> [] | Some ds \<Rightarrow> ds) in
      if length posargs - i \<le> length ds
      then posargs ! i @ ''='' @ py_str (ds ! (length ds - (length posargs - i)))
      else posargs ! i)"
proof (cases "truthy dflts")
  case False
  then have "(case dflts of None \<Rightarrow> [] | Some ds \<Rightarrow> ds) = []"
    by (auto simp: truthy_def split: option.splits)
  with False assms show ?thesis by (simp add: posargs_entries_def)
next
  case True
  define ds where "ds = (case dflts of None \<Rightarrow> [] | Some ds \<Rightarrow> ds)"
  define n where "n = length posargs"
  have len: "length [- int n .. - 1] = n" by simp
  have idx: "[- int n .. - 1] ! i = - int n + int i"
    using assms by (simp add: n_def)
  have z: "zip posargs [- int n .. - 1] ! i = (posargs ! i, - int n + int i)"
    using assms len idx by (simp add: n_def)
  have g: "py_getitem ds (- int n + int i) =
      (if n - i \<le> length ds then Some (ds ! (length ds - (n - i))) else None)"
  proof -
    have neg: "- int n + int i < 0" using assms by (simp add: n_def)
    have a: "- (- int n + int i) = int (n - i)" using assms by (simp add: n_def)
    have b: "n - i \<le> length ds \<Longrightarrow> nat (int (length ds) + (- int n + int i)) = length ds - (n - i)"
      using assms by (simp add: n_def)
    show ?thesis using neg a b unfolding py_getitem_def by auto
  qed
  have "posargs_entries posargs dflts ! i =
     (case py_getitem ds (- int n + int i) of None \<Rightarrow> posargs ! i
       | Some dflt \<Rightarrow> posargs ! i @ ''='' @ py_str dflt)"
    using True assms z len unfolding posargs_entries_def ds_def n_def by simp
  then show ?thesis using g unfolding ds_def n_def by (simp add: Let_def)
qed

lemma posargs_entries_xyz:
  "posargs_entries [''x'', ''y'', ''z''] (Some [VInt 1, VInt 2]) = [''x'', ''y=1'', ''z=2'']"
  by code_simp

lemma any_auto_explicit_iff:
  "any_auto_explicit self =
     ((\<exists>hcls \<in> snd ` set (session_handlers (libinstance self)). auto_explicit hcls)
      \<or> (\<exists>hcls \<in> set (context_handlers self). ctx_auto_explicit hcls = Some True))"
  by (auto simp: any_auto_explicit_def list_ex_iff getattr_auto_explicit_def split: option.splits)

text \<open>
  C8, as the code has it.  Without an explicit \<open>func.args\<close>, \<open>args()\<close> yields the
  entries of the reflected signature (the positional names, \<open>*varargs\<close>, \<open>**keywords\<close>)
  and then the synthesized entry \<open>**options\<close> exactly when no variadic-keyword
  parameter is declared and a session handler of the library instance or a context
  handler of the Keyword has \<open>auto_explicit\<close>.  A declared variadic-positional
  parameter does not matter: the \<open>elif\<close> belongs to \<open>if argspec.keywords\<close>.
\<close>

theorem C8_options_entry:
  assumes "\<not> truthy (func_args (func self))"
  shows "Keyword_args self =
     posargs_entries (drop 1 (args (argspec (func self)))) (defaults (argspec (func self)))
     @ (case varargs (argspec (func self)) of
          None \<Rightarrow> [] | Some v \<Rightarrow> if v \<noteq> [] then [''*'' @ v] else [])
     @ (case kwds (argspec (func self)) of
          None \<Rightarrow> [] | Some k \<Rightarrow> if k \<noteq> [] then [''**'' @ k] else [])
     @ (if \<not> truthy (kwds (argspec (func self)))
           \<and> ((\<exists>hcls \<in> snd ` set (session_handlers (libinstance self)). auto_explicit hcls)
              \<or> (\<exists>hcls \<in> set (context_handlers self). ctx_auto_explicit hcls = Some True))
        then [''**options''] else [])"
proof -
  have c: "((\<exists>hcls \<in> snd ` set (session_handlers (libinstance self)). auto_explicit hcls)
              \<or> (\<exists>hcls \<in> set (context_handlers self). ctx_auto_explicit hcls = Some True))
           = any_auto_explicit self"
    by (rule any_auto_explicit_iff [symmetric])
  show ?thesis
    unfolding c using assms
    by (simp add: Keyword_args_def Let_def truthy_def split: option.splits)
qed

theorem C8_options_entry_witness:
  "\<not> truthy (func_args (func log_keyword))
   \<and> Keyword_args log_keyword = [''level'', ''*rest'', ''**options'']"
proof -
  have h: "\<not> truthy (func_args (func log_keyword))"
    by (simp add: log_keyword_def Keyword_init_def truthy_def)
  have e: "posargs_entries [''level''] None = [''level'']"
    by (simp add: posargs_entries_def truthy_def)
  show ?thesis
    using h e C8_options_entry [OF h]
    by (simp add: log_keyword_def Keyword_init_def truthy_def demo_library_def
          spec_library_def connection_handler_def)
qed

text \<open>
  C8 as the spec states it fails: \<open>log\<close> declares the variadic-positional parameter
  \<open>*rest\<close>, and \<open>args()\<close> still ends with the synthesized \<open>**options\<close>.
\<close>

theorem C8_counterexample:
  "varargs (argspec (func log_keyword)) = Some ''rest''
   \<and> kwds (argspec (func log_keyword)) = None
   \<and> Keyword_args log_keyword = [''level'', ''*rest'', ''**options'']"
  by (simp add: log_keyword_def Keyword_init_def Keyword_args_def truthy_def
        posargs_entries_def any_auto_explicit_def demo_library_def spec_library_def
        connection_handler_def)

text \<open>
  C9.  Without an explicit \<open>func.args\<close>, the first entries of \<open>args()\<close> are the
  positional names after the first one, in order; the name at position \<open>i\<close> carries
  \<open>=<default>\<close> exactly when it lies in the trailing window of as many names as there
  are defaults, and then with the default of the same position in that window.  For
  \<open>[x, y, z]\<close> with the defaults \<open>(1, 2)\<close> and the variadic-keyword name \<open>options\<close>
  the result is \<open>[x, y=1, z=2, **options]\<close>.
\<close>

theorem C9_positional_names_and_defaults:
  assumes "\<not> truthy (func_args (func self))"
  shows "(\<forall>i < length (drop 1 (args (argspec (func self)))).
            Keyword_args self ! i =
              (let posargs = drop 1 (args (argspec (func self)));
                   ds = (case defaults (argspec (func self)) of None \<Rightarrow> [] | Some ds \<Rightarrow> ds)
               in if length posargs - i \<le> length ds
                  then posargs ! i @ ''='' @ py_str (ds ! (length ds - (length posargs - i)))
                  else posargs ! i))
         \<and> (argspec (func self) =
               \<lparr> args = [s, ''x'', ''y'', ''z''], varargs = None, kwds = Some ''options'',
                 defaults = Some [VInt 1, VInt 2] \<rparr>
             \<longrightarrow> Keyword_args self = [''x'', ''y=1'', ''z=2'', ''**options''])"
proof (intro conjI allI impI)
  fix i
  assume i: "i < length (drop 1 (args (argspec (func self))))"
  have "Keyword_args self ! i =
          posargs_entries (drop 1 (args (argspec (func self))))
            (defaults (argspec (func self))) ! i"
    using assms i
    by (simp add: Keyword_args_def Let_def nth_append posargs_entries_length)
  then show "Keyword_args self ! i =
              (let posargs = drop 1 (args (argspec (func self)));
                   ds = (case defaults (argspec (func self)) of None \<Rightarrow> [] | Some ds \<Rightarrow> ds)
               in if length posargs - i \<le> length ds
                  then posargs ! i @ ''='' @ py_str (ds ! (length ds - (length posargs - i)))
                  else posargs ! i)"
    using posargs_entries_nth [OF i] by (simp add: Let_def)
next
  assume "argspec (func self) =
            \<lparr> args = [s, ''x'', ''y'', ''z''], varargs = None, kwds = Some ''options'',
              defaults = Some [VInt 1, VInt 2] \<rparr>"
  then show "Keyword_args self = [''x'', ''y=1'', ''z=2'', ''**options'']"
    using assms posargs_entries_xyz by (simp add: Keyword_args_def truthy_def)
qed

theorem C9_positional_names_and_defaults_witness:
  "\<not> truthy (func_args (func send_keyword))
   \<and> Keyword_args send_keyword ! 0 = ''x''
   \<and> Keyword_args send_keyword ! 1 = ''y=1''
   \<and> Keyword_args send_keyword = [''x'', ''y=1'', ''z=2'', ''**options'']"
proof -
  have h: "\<not> truthy (func_args (func send_keyword))"
    by (simp add: send_keyword_def Keyword_init_def truthy_def)
  have a: "argspec (func send_keyword) =
             \<lparr> args = [''self'', ''x'', ''y'', ''z''], varargs = None, kwds = Some ''options'',
               defaults = Some [VInt 1, VInt 2] \<rparr>"
    by (simp add: send_keyword_def Keyword_init_def)
  have l: "(0::nat) < length (drop 1 (args (argspec (func send_keyword))))"
          "(1::nat) < length (drop 1 (args (argspec (func send_keyword))))"
    by (simp_all add: a)
  show ?thesis
    using h a l C9_positional_names_and_defaults [OF h, of "''self''"]
    by simp
qed

text \<open>
  C10.  A docstring without a newline makes \<open>Keyword.__doc__\<close> return \<open>None\<close>; a
  docstring is returned exactly when it contains a newline, as its first line, the
  newline and the dedented rest.
\<close>

theorem C10_docstring_without_newline:
  "(doc (func self) = Some d \<and> CHR 0x0A \<notin> set d \<longrightarrow> Keyword_doc dedent self = None)
   \<and> ((Keyword_doc dedent self = Some r) =
        (\<exists>first_line rest. doc (func self) = Some (first_line @ [CHR 0x0A] @ rest)
            \<and> CHR 0x0A \<notin> set first_line \<and> r = first_line @ [CHR 0x0A] @ dedent rest))"
proof (intro conjI impI)
  assume "doc (func self) = Some d \<and> CHR 0x0A \<notin> set d"
  then show "Keyword_doc dedent self = None" by (simp add: Keyword_doc_def)
next
  show "(Keyword_doc dedent self = Some r) =
        (\<exists>first_line rest. doc (func self) = Some (first_line @ [CHR 0x0A] @ rest)
            \<and> CHR 0x0A \<notin> set first_line \<and> r = first_line @ [CHR 0x0A] @ dedent rest)"
  proof
    assume a: "Keyword_doc dedent self = Some r"
    then obtain d' where d: "doc (func self) = Some d'" "CHR 0x0A \<in> set d'"
      by (auto simp: Keyword_doc_def split: option.splits if_splits)
    let ?f = "takeWhile (\<lambda>c. c \<noteq> CHR 0x0A) d'"
    let ?r = "drop 1 (dropWhile (\<lambda>c. c \<noteq> CHR 0x0A) d')"
    have "dropWhile (\<lambda>c. c \<noteq> CHR 0x0A) d' \<noteq> []"
      using d by (simp add: dropWhile_eq_Nil_conv)
    moreover have "hd (dropWhile (\<lambda>c. c \<noteq> CHR 0x0A) d') = CHR 0x0A"
      using hd_dropWhile [of "\<lambda>c. c \<noteq> CHR 0x0A" d'] calculation by auto
    ultimately have "dropWhile (\<lambda>c. c \<noteq> CHR 0x0A) d' = CHR 0x0A # ?r"
      by (cases "dropWhile (\<lambda>c. c \<noteq> CHR 0x0A) d'") auto
    then have "d' = ?f @ [CHR 0x0A] @ ?r"
      using takeWhile_dropWhile_id [of "\<lambda>c. c \<noteq> CHR 0x0A" d'] by simp
    moreover have "CHR 0x0A \<notin> set ?f" by (auto dest: set_takeWhileD)
    moreover have "r = ?f @ [CHR 0x0A] @ dedent ?r"
      using a d by (simp add: Keyword_doc_def Let_def)
    ultimately show "\<exists>first_line rest. doc (func self) = Some (first_line @ [CHR 0x0A] @ rest)
          \<and> CHR 0x0A \<notin> set first_line \<and> r = first_line @ [CHR 0x0A] @ dedent rest"
      using d by metis
  next
    assume "\<exists>first_line rest. doc (func self) = Some (first_line @ [CHR 0x0A] @ rest)
          \<and> CHR 0x0A \<notin> set first_line \<and> r = first_line @ [CHR 0x0A] @ dedent rest"
    then obtain f rest where h: "doc (func self) = Some (f @ [CHR 0x0A] @ rest)"
       "CHR 0x0A \<notin> set f" "r = f @ [CHR 0x0A] @ dedent rest" by blast
    have t: "takeWhile (\<lambda>c. c \<noteq> CHR 0x0A) (f @ [CHR 0x0A] @ rest) = f"
      using h(2) by (subst takeWhile_append2) auto
    have dr: "dropWhile (\<lambda>c. c \<noteq> CHR 0x0A) (f @ [CHR 0x0A] @ rest) = CHR 0x0A # rest"
      using h(2) by (subst dropWhile_append2) auto
    show "Keyword_doc dedent self = Some r"
      using h t dr by (simp add: Keyword_doc_def Let_def)
  qed
qed

theorem C10_docstring_without_newline_witness:
  "doc (func send_keyword) = Some ''Send the data.''
   \<and> CHR 0x0A \<notin> set ''Send the data.''
   \<and> Keyword_doc (\<lambda>rest. rest) send_keyword = None"
proof -
  have h: "doc (func send_keyword) = Some ''Send the data.'' \<and> CHR 0x0A \<notin> set ''Send the data.''"
    by (simp add: send_keyword_def Keyword_init_def)
  show ?thesis
    using h C10_docstring_without_newline [of send_keyword "''Send the data.''" "\<lambda>rest. rest"]
    by simp
qed

section \<open>The call protocol: lemmas\<close>

lemma call_switch_result:
  "call_switch L tag i v w = (r, w') \<Longrightarrow>
     switch L i v (fst w) = (r, fst w') \<and> snd w' = snd w @ [tag i v]"
  by (auto simp: call_switch_def split: prod.splits)

lemma switch_back_log:
  "switch_back L i s items w = (r, w') \<Longrightarrow>
     \<exists>log. snd w' = snd w @ log \<and> (\<forall>ev \<in> set log. \<exists>v. ev = SessionRestore i v)"
proof (induction items arbitrary: w)
  case Nil
  then show ?case by simp
next
  case (Cons p items)
  obtain sname sinstance where p: "p = (sname, sinstance)" by (cases p)
  show ?case
  proof (cases "sinstance = s")
    case False
    with Cons.prems p have "switch_back L i s items w = (r, w')" by simp
    then show ?thesis by (rule Cons.IH)
  next
    case True
    obtain r1 w1 where c: "call_switch L SessionRestore i sname w = (r1, w1)"
      by (cases "call_switch L SessionRestore i sname w")
    then have l1: "snd w1 = snd w @ [SessionRestore i sname]"
      using call_switch_result [of L SessionRestore i sname w r1 w1] by simp
    show ?thesis
    proof (cases r1)
      case (Inl e)
      with Cons.prems p c True have "w1 = w'" by simp
      with l1 show ?thesis by (intro exI [of _ "[SessionRestore i sname]"]) simp
    next
      case (Inr u)
      with Cons.prems p c True have "switch_back L i s items w1 = (r, w')" by simp
      from Cons.IH [OF this] obtain log where
        l: "snd w' = snd w1 @ log" "\<forall>ev \<in> set log. \<exists>v. ev = SessionRestore i v" by blast
      show ?thesis
        using l1 l by (intro exI [of _ "SessionRestore i sname # log"]) simp
    qed
  qed
qed

lemma restore_sessions_log:
  "restore_sessions L cs w = (r, w') \<Longrightarrow>
     \<exists>log. snd w' = snd w @ log
        \<and> (\<forall>ev \<in> set log. \<exists>k v. k \<in> fst ` set cs \<and> ev = SessionRestore (fst k) v)"
proof (induction cs arbitrary: w)
  case Nil
  then show ?case by simp
next
  case (Cons p cs)
  obtain i pl s where p: "p = ((i, pl), s)" by (cases p) auto
  obtain r1 w1 where c: "switch_back L i s (getattr_plural L pl (fst w)) w = (r1, w1)"
    by (cases "switch_back L i s (getattr_plural L pl (fst w)) w")
  from switch_back_log [OF c] obtain log1 where
    l1: "snd w1 = snd w @ log1" "\<forall>ev \<in> set log1. \<exists>v. ev = SessionRestore i v" by blast
  have l1': "\<forall>ev \<in> set log1. \<exists>k v. k \<in> fst ` set (p # cs) \<and> ev = SessionRestore (fst k) v"
  proof
    fix ev assume "ev \<in> set log1"
    with l1(2) obtain v where "ev = SessionRestore i v" by blast
    then have "(i, pl) \<in> fst ` set (p # cs) \<and> ev = SessionRestore (fst (i, pl)) v"
      using p by simp
    then show "\<exists>k v. k \<in> fst ` set (p # cs) \<and> ev = SessionRestore (fst k) v" by blast
  qed
  show ?case
  proof (cases r1)
    case (Inl e)
    with Cons.prems p c have "w1 = w'" by simp
    with l1(1) l1' show ?thesis by (intro exI [of _ log1]) simp
  next
    case (Inr u)
    with Cons.prems p c have "restore_sessions L cs w1 = (r, w')" by simp
    from Cons.IH [OF this] obtain log where
      l: "snd w' = snd w1 @ log"
         "\<forall>ev \<in> set log. \<exists>k v. k \<in> fst ` set cs \<and> ev = SessionRestore (fst k) v" by blast
    have l': "\<forall>ev \<in> set log. \<exists>k v. k \<in> fst ` set (p # cs) \<and> ev = SessionRestore (fst k) v"
    proof
      fix ev assume "ev \<in> set log"
      with l(2) obtain k v where "k \<in> fst ` set cs" "ev = SessionRestore (fst k) v" by blast
      then have "k \<in> fst ` set (p # cs) \<and> ev = SessionRestore (fst k) v" by simp
      then show "\<exists>k v. k \<in> fst ` set (p # cs) \<and> ev = SessionRestore (fst k) v" by blast
    qed
    have "snd w' = snd w @ (log1 @ log)" using l1 l by simp
    moreover have "\<forall>ev \<in> set (log1 @ log). \<exists>k v. k \<in> fst ` set (p # cs) \<and> ev = SessionRestore (fst k) v"
      using l1' l' by (simp add: Ball_def)
    ultimately show ?thesis by (intro exI [of _ "log1 @ log"] conjI)
  qed
qed

lemma switch_sessions_log:
  "switch_sessions L hs kw cs w = Inr (err, kw', cs', w') \<Longrightarrow>
     \<exists>log. snd w' = snd w @ log
        \<and> (\<forall>ev \<in> set log. \<exists>h v. h \<in> set hs \<and> ev = SessionSwitch (identifier_name h) v)"
proof (induction hs arbitrary: kw cs w)
  case Nil
  then show ?case by simp
next
  case (Cons h hs)
  have weaken: "\<And>log. \<forall>ev \<in> set log. \<exists>h v. h \<in> set hs \<and> ev = SessionSwitch (identifier_name h) v
      \<Longrightarrow> \<forall>ev \<in> set log. \<exists>h' v. h' \<in> set (h # hs) \<and> ev = SessionSwitch (identifier_name h') v"
    by (metis list.set_intros(2))
  show ?case
  proof (cases "auto_explicit h \<and> map_of kw (identifier_name h) \<noteq> None")
    case False
    with Cons.prems have "switch_sessions L hs kw cs w = Inr (err, kw', cs', w')"
      by (auto split: option.splits)
    from Cons.IH [OF this] obtain log where
      "snd w' = snd w @ log"
      "\<forall>ev \<in> set log. \<exists>h v. h \<in> set hs \<and> ev = SessionSwitch (identifier_name h) v" by blast
    then show ?thesis using weaken by (intro exI [of _ log]) simp
  next
    case True
    then obtain sname where s: "auto_explicit h" "map_of kw (identifier_name h) = Some sname"
      by auto
    obtain r1 w1 where c: "call_switch L SessionSwitch (identifier_name h) sname w = (r1, w1)"
      by (cases "call_switch L SessionSwitch (identifier_name h) sname w")
    then have l1: "snd w1 = snd w @ [SessionSwitch (identifier_name h) sname]"
      using call_switch_result [of L SessionSwitch "identifier_name h" sname w r1 w1] by simp
    have here: "\<exists>h' v. h' \<in> set (h # hs)
        \<and> SessionSwitch (identifier_name h) sname = SessionSwitch (identifier_name h') v"
      by (intro exI [of _ h] exI [of _ sname]) simp
    show ?thesis
    proof (cases r1)
      case (Inl e)
      with Cons.prems s c have "w1 = w'" by (simp split: if_splits)
      with l1 here show ?thesis
        by (intro exI [of _ "[SessionSwitch (identifier_name h) sname]"]) simp
    next
      case (Inr u)
      with Cons.prems s c have
        "switch_sessions L hs (dict_pop (identifier_name h) kw)
           (dict_set (identifier_name h, plural_identifier_name h)
              (getattr_session L (identifier_name h) (fst w)) cs) w1 = Inr (err, kw', cs', w')"
        by simp
      from Cons.IH [OF this] obtain log where
        l: "snd w' = snd w1 @ log"
           "\<forall>ev \<in> set log. \<exists>h v. h \<in> set hs \<and> ev = SessionSwitch (identifier_name h) v" by blast
      have "snd w' = snd w @ (SessionSwitch (identifier_name h) sname # log)" using l1 l by simp
      moreover have "\<forall>ev \<in> set (SessionSwitch (identifier_name h) sname # log).
          \<exists>h' v. h' \<in> set (h # hs) \<and> ev = SessionSwitch (identifier_name h') v"
        using weaken [OF l(2)] here by simp
      ultimately show ?thesis
        by (intro exI [of _ "SessionSwitch (identifier_name h) sname # log"] conjI)
    qed
  qed
qed

lemma switch_sessions_append:
  "switch_sessions L (pre @ rest) kw cs w =
     (case switch_sessions L pre kw cs w of
        Inl x \<Rightarrow> Inl x
      | Inr (err, kw1, cs1, w1) \<Rightarrow>
          (case err of None \<Rightarrow> switch_sessions L rest kw1 cs1 w1
                     | Some e \<Rightarrow> Inr (Some e, kw1, cs1, w1)))"
proof (induction pre arbitrary: kw cs w)
  case Nil
  then show ?case by simp
next
  case (Cons h pre)
  show ?case
  proof (cases "auto_explicit h \<and> map_of kw (identifier_name h) \<noteq> None")
    case False
    then show ?thesis using Cons.IH by (auto split: option.splits)
  next
    case True
    then obtain sname where s: "auto_explicit h" "map_of kw (identifier_name h) = Some sname"
      by auto
    obtain r1 w1 where c: "call_switch L SessionSwitch (identifier_name h) sname w = (r1, w1)"
      by (cases "call_switch L SessionSwitch (identifier_name h) sname w")
    show ?thesis
    proof (cases r1)
      case (Inl e)
      with s c show ?thesis by simp
    next
      case (Inr u)
      with s c show ?thesis using Cons.IH by simp
    qed
  qed
qed

lemma switch_sessions_fails_at:
  assumes "switch_sessions L pre kw cs w = Inr (None, kw1, cs1, w1)"
      and "auto_explicit hcls"
      and "map_of kw1 (identifier_name hcls) = Some sname"
      and "switch L (identifier_name hcls) sname (fst w1) = (Inl e, lib2)"
      and "isinstance_exc e (SessionError hcls)"
  shows "switch_sessions L (pre @ hcls # post) kw cs w =
           Inr (Some e, dict_pop (identifier_name hcls) kw1, cs1,
                (lib2, snd w1 @ [SessionSwitch (identifier_name hcls) sname]))"
  using assms by (simp add: switch_sessions_append call_switch_def)

lemma Keyword_call_session_error:
  assumes "switch_sessions (libinstance self) (map snd (session_handlers (libinstance self)))
             kw [] (lib, []) = Inr (Some e, kw', cs, w)"
  shows "Keyword_call self a kw lib =
           (case restore_sessions (libinstance self) cs w of
              (Inl r, w') \<Rightarrow> (Inl r, w')
            | (Inr u, w') \<Rightarrow> (Inl e, w'))"
  using assms by (simp add: Keyword_call_def switch_and_call_def restore_def)



lemma resolve_last_match:
  "resolve items active =
     (case filter (\<lambda>item. fst item \<in> set active) items of
        [] \<Rightarrow> None | m # ms \<Rightarrow> Some (last (m # ms)))"
proof (induction items rule: rev_induct)
  case Nil
  then show ?case by (simp add: resolve_def)
next
  case (snoc x xs)
  then show ?case
    by (cases "filter (\<lambda>item. fst item \<in> set active) xs") (simp_all add: resolve_def)
qed

lemma map_of_dict_pop: "map_of (dict_pop n kw) m = (if m = n then None else map_of kw m)"
  by (induction kw) (auto simp: dict_pop_def)

lemma map_filter_cong_set:
  "\<forall>x \<in> set xs. f x = g x \<Longrightarrow> List.map_filter f xs = List.map_filter g xs"
  by (induction xs) (simp_all split: option.splits)

lemma drain_eq:
  "distinct names \<Longrightarrow>
     drain names kw = (List.map_filter (map_of kw) names,
                       filter (\<lambda>item. fst item \<notin> set names) kw)"
proof (induction names arbitrary: kw)
  case Nil
  then show ?case by simp
next
  case (Cons n ns)
  then have d: "distinct ns" "n \<notin> set ns" by simp_all
  show ?case
  proof (cases "map_of kw n")
    case None
    then have "n \<notin> fst ` set kw" by (simp add: map_of_eq_None_iff)
    then have "filter (\<lambda>item. fst item \<notin> set (n # ns)) kw = filter (\<lambda>item. fst item \<notin> set ns) kw"
      by (intro filter_cong) auto
    with None Cons.IH [OF d(1)] show ?thesis by simp
  next
    case (Some v)
    have a: "List.map_filter (map_of (dict_pop n kw)) ns = List.map_filter (map_of kw) ns"
      using d(2) by (intro map_filter_cong_set) (auto simp: map_of_dict_pop)
    have b: "filter (\<lambda>item. fst item \<notin> set ns) (dict_pop n kw)
               = filter (\<lambda>item. fst item \<notin> set (n # ns)) kw"
      by (simp add: dict_pop_def conj_commute)
    from Some Cons.IH [OF d(1)] a b show ?thesis by simp
  qed
qed

lemma reshape_eq:
  assumes "distinct argspec_args"
  shows "reshape argspec_args a kw =
     (a @ List.map_filter (map_of kw) (drop (1 + length a) argspec_args)
        @ map (\<lambda>item. VStr (fst item @ ''='' @ py_str (snd item)))
            (filter (\<lambda>item. fst item \<notin> set argspec_args) kw),
      filter (\<lambda>item. fst item \<in> set (take (1 + length a) argspec_args)) kw)"
proof -
  let ?names = "drop (1 + length a) argspec_args"
  have dn: "distinct ?names" using assms by simp
  have sub: "set ?names \<subseteq> set argspec_args" by (rule set_drop_subset)
  have lit: "filter (\<lambda>item. fst item \<notin> set argspec_args)
               (filter (\<lambda>item. fst item \<notin> set ?names) kw)
             = filter (\<lambda>item. fst item \<notin> set argspec_args) kw"
    using sub by (auto intro: filter_cong)
  have split: "set argspec_args = set (take (1 + length a) argspec_args) \<union> set ?names"
    by (metis append_take_drop_id set_append)
  have disj: "set (take (1 + length a) argspec_args) \<inter> set ?names = {}"
    using assms by (metis append_take_drop_id distinct_append)
  have left: "filter (\<lambda>item. fst item \<in> set argspec_args)
               (filter (\<lambda>item. fst item \<notin> set ?names) kw)
             = filter (\<lambda>item. fst item \<in> set (take (1 + length a) argspec_args)) kw"
    using split disj by (auto intro: filter_cong)
  show ?thesis
    unfolding reshape_def drain_eq [OF dn] using lit left by simp
qed

text \<open>The equations that evaluate a call on a concrete library instance.\<close>

lemma lower_Mode: "lower ''Mode'' = ''mode''"
  by (simp add: lower_def lower_char_def)

lemmas call_defs =
  Keyword_call_def switch_and_call_def call_func_def dispatch_def reshape_def invoke_def
  typed_args_def resolve_def call_switch_def restore_def truthy_def dict_pop_def
  isinstance_exc_def getattr_auto_explicit_def Keyword_init_def

lemmas example_defs =
  demo_library_def duo_library_def spec_library_def spec_switch_def spec_contexts_def
  connection_handler_def channel_handler_def mode_handler_def demo_state_def idle_state_def
  value_error_def raising_body_def count_body_def fetch_keyword_def put_keyword_def
  show_keyword_def duo_show_keyword_def show_func_def show_fast_def show_slow_def
  fast_context_def slow_context_def lower_Mode orphan_state_def number_argtype_def
  wait_keyword_def keyboard_interrupt_def stop_keyword_def lost_error_def flaky_library_def
  flaky_fetch_keyword_def tell_keyword_def send_keyword_def log_keyword_def

text \<open>The restoration loops, item by item.\<close>

lemma restore_contexts_append:
  "restore_contexts L pre w = (Inr (), w1) \<Longrightarrow>
     restore_contexts L (pre @ rest) w = restore_contexts L rest w1"
proof (induction pre arbitrary: w)
  case Nil
  then show ?case by simp
next
  case (Cons item pre)
  obtain i v where item: "item = (i, v)" by (cases item)
  obtain r1 w' where c: "call_switch L ContextRestore i v w = (r1, w')"
    by (cases "call_switch L ContextRestore i v w")
  show ?case
  proof (cases r1)
    case (Inl e)
    with Cons.prems item c show ?thesis by simp
  next
    case (Inr u)
    with Cons.prems item c have "restore_contexts L pre w' = (Inr (), w1)" by simp
    from Cons.IH [OF this] Inr item c show ?thesis by simp
  qed
qed

lemma restore_contexts_first_error:
  assumes "restore_contexts L pre w = (Inr (), w1)"
      and "switch L identifier ctxname (fst w1) = (Inl r, lib')"
  shows "restore_contexts L (pre @ (identifier, ctxname) # post) w
           = (Inl r, (lib', snd w1 @ [ContextRestore identifier ctxname]))"
  using assms(2) by (simp add: restore_contexts_append [OF assms(1)] call_switch_def)

lemma switch_back_append:
  "switch_back L identifier session pre w = (Inr (), w1) \<Longrightarrow>
     switch_back L identifier session (pre @ rest) w = switch_back L identifier session rest w1"
proof (induction pre arbitrary: w)
  case Nil
  then show ?case by simp
next
  case (Cons item pre)
  obtain sname sinstance where item: "item = (sname, sinstance)" by (cases item)
  show ?case
  proof (cases "sinstance = session")
    case False
    with Cons.prems item have "switch_back L identifier session pre w = (Inr (), w1)" by simp
    from Cons.IH [OF this] False item show ?thesis by simp
  next
    case True
    obtain r1 w' where c: "call_switch L SessionRestore identifier sname w = (r1, w')"
      by (cases "call_switch L SessionRestore identifier sname w")
    show ?thesis
    proof (cases r1)
      case (Inl e)
      with Cons.prems item True c show ?thesis by simp
    next
      case (Inr u)
      with Cons.prems item True c
      have "switch_back L identifier session pre w' = (Inr (), w1)" by simp
      from Cons.IH [OF this] Inr item True c show ?thesis by simp
    qed
  qed
qed

lemma switch_back_first_error:
  assumes "switch_back L identifier session pre w = (Inr (), w1)"
      and "switch L identifier sname (fst w1) = (Inl r, lib')"
  shows "switch_back L identifier session (pre @ (sname, session) # post) w
           = (Inl r, (lib', snd w1 @ [SessionRestore identifier sname]))"
  using assms(2) by (simp add: switch_back_append [OF assms(1)] call_switch_def)

lemma restore_sessions_append:
  "restore_sessions L pre w = (Inr (), w1) \<Longrightarrow>
     restore_sessions L (pre @ rest) w = restore_sessions L rest w1"
proof (induction pre arbitrary: w)
  case Nil
  then show ?case by simp
next
  case (Cons item pre)
  obtain i pl session where item: "item = ((i, pl), session)"
    by (cases item) auto
  obtain r1 w' where
    c: "switch_back L i session (getattr_plural L pl (fst w)) w = (r1, w')"
    by (cases "switch_back L i session (getattr_plural L pl (fst w)) w")
  show ?case
  proof (cases r1)
    case (Inl e)
    with Cons.prems item c show ?thesis by simp
  next
    case (Inr u)
    with Cons.prems item c have "restore_sessions L pre w' = (Inr (), w1)" by simp
    from Cons.IH [OF this] Inr item c show ?thesis by simp
  qed
qed

lemma restore_sessions_first_error:
  assumes "restore_sessions L pre w = (Inr (), w1)"
      and "getattr_plural L plural_identifier (fst w1) = ipre @ (sname, session) # ipost"
      and "switch_back L identifier session ipre w1 = (Inr (), w2)"
      and "switch L identifier sname (fst w2) = (Inl r, lib')"
  shows "restore_sessions L (pre @ ((identifier, plural_identifier), session) # post) w
           = (Inl r, (lib', snd w2 @ [SessionRestore identifier sname]))"
  using switch_back_first_error [OF assms(3) assms(4), of ipost] assms(2)
  by (simp add: restore_sessions_append [OF assms(1)])


lemma keys_dict_set: "fst ` set (dict_set k v d) = insert k (fst ` set d)"
proof (induction d)
  case Nil
  then show ?case by simp
next
  case (Cons p d)
  obtain k' v' where p: "p = (k', v')" by (cases p)
  show ?case using Cons p by (cases "k' = k") (simp_all add: insert_commute)
qed

lemma map_of_dict_set: "map_of (dict_set k v d) k' = (if k' = k then Some v else map_of d k')"
  by (induction d) auto

lemma switch_sessions_popped:
  assumes "switch_sessions L hs kw cs w = Inr (err, kw', cs', w')"
      and "\<forall>k \<in> fst ` set cs. map_of kw (fst k) = None"
  shows "\<forall>k \<in> fst ` set cs'. map_of kw' (fst k) = None"
  using assms
proof (induction hs arbitrary: kw cs w)
  case Nil
  then show ?case by simp
next
  case (Cons h hs)
  let ?i = "identifier_name h"
  show ?case
  proof (cases "auto_explicit h \<and> map_of kw ?i \<noteq> None")
    case False
    with Cons.prems(1) have "switch_sessions L hs kw cs w = Inr (err, kw', cs', w')"
      by (auto split: option.splits)
    from Cons.IH [OF this Cons.prems(2)] show ?thesis .
  next
    case True
    then obtain sname where s: "auto_explicit h" "map_of kw ?i = Some sname" by auto
    obtain r1 w1 where c: "call_switch L SessionSwitch ?i sname w = (r1, w1)"
      by (cases "call_switch L SessionSwitch ?i sname w")
    have popped: "\<forall>k \<in> fst ` set cs. map_of (dict_pop ?i kw) (fst k) = None"
      using Cons.prems(2) by (simp add: map_of_dict_pop)
    show ?thesis
    proof (cases r1)
      case (Inl e)
      with Cons.prems(1) s c have "kw' = dict_pop ?i kw" "cs' = cs"
        by (simp_all split: if_splits)
      with popped show ?thesis by simp
    next
      case (Inr u)
      let ?cs1 = "dict_set (?i, plural_identifier_name h) (getattr_session L ?i (fst w)) cs"
      from Inr Cons.prems(1) s c
      have run': "switch_sessions L hs (dict_pop ?i kw) ?cs1 w1 = Inr (err, kw', cs', w')"
        by simp
      have "\<forall>k \<in> fst ` set ?cs1. map_of (dict_pop ?i kw) (fst k) = None"
        using popped by (simp add: keys_dict_set map_of_dict_pop)
      from Cons.IH [OF run' this] show ?thesis .
    qed
  qed
qed

lemma switch_sessions_keeps_entry:
  assumes "switch_sessions L hs kw cs w = Inr (err, kw', cs', w')"
      and "map_of kw i = None"
      and "map_of cs (i, p) = Some v"
  shows "map_of cs' (i, p) = Some v"
  using assms
proof (induction hs arbitrary: kw cs w)
  case Nil
  then show ?case by simp
next
  case (Cons h hs)
  let ?i = "identifier_name h"
  show ?case
  proof (cases "auto_explicit h \<and> map_of kw ?i \<noteq> None")
    case False
    with Cons.prems(1) have "switch_sessions L hs kw cs w = Inr (err, kw', cs', w')"
      by (auto split: option.splits)
    from Cons.IH [OF this Cons.prems(2) Cons.prems(3)] show ?thesis .
  next
    case True
    then obtain sname where s: "auto_explicit h" "map_of kw ?i = Some sname" by auto
    with Cons.prems(2) have ne: "?i \<noteq> i" by auto
    obtain r1 w1 where c: "call_switch L SessionSwitch ?i sname w = (r1, w1)"
      by (cases "call_switch L SessionSwitch ?i sname w")
    show ?thesis
    proof (cases r1)
      case (Inl e)
      with Cons.prems(1) s c have "cs' = cs" by (simp split: if_splits)
      with Cons.prems(3) show ?thesis by simp
    next
      case (Inr u)
      let ?cs1 = "dict_set (?i, plural_identifier_name h) (getattr_session L ?i (fst w)) cs"
      from Inr Cons.prems(1) s c
      have run': "switch_sessions L hs (dict_pop ?i kw) ?cs1 w1 = Inr (err, kw', cs', w')"
        by simp
      have k: "map_of (dict_pop ?i kw) i = None"
        using Cons.prems(2) by (simp add: map_of_dict_pop)
      have e: "map_of ?cs1 (i, p) = Some v"
        using Cons.prems(3) ne by (simp add: map_of_dict_set)
      from Cons.IH [OF run' k e] show ?thesis .
    qed
  qed
qed

section \<open>Calls on handlers that keep their contract\<close>















section \<open>The call protocol: theorems\<close>







text \<open>
  C3.  The restoration is reached with \<open>outcome\<close>, a captured error or a result.  If a
  switch of the restoration raises, after the switches before it returned, then
  \<open>__call__\<close> raises that exception, whatever \<open>outcome\<close> is, and that switch is the
  last thing the call does.  This is said for a recorded context (the contexts before
  it were switched back), and for an alias of a recorded session (the contexts and the
  sessions before it were switched back, and so were the aliases of that session before
  it in the collection).
\<close>

theorem C3_restoration_error_supersedes:
  assumes "switch_and_call self a kw lib = Inr (outcome, current_sessions, current_contexts, w)"
  shows "(current_contexts = pre @ (cid, ctxname) # post
          \<and> restore_contexts (libinstance self) pre w = (Inr (), w1)
          \<and> switch (libinstance self) cid ctxname (fst w1) = (Inl r, lib')
          \<longrightarrow> Keyword_call self a kw lib
                = (Inl r, (lib', snd w1 @ [ContextRestore cid ctxname])))
         \<and> (restore_contexts (libinstance self) current_contexts w = (Inr (), w2)
            \<and> current_sessions = spre @ ((sid, plural_identifier), session) # spost
            \<and> restore_sessions (libinstance self) spre w2 = (Inr (), w3)
            \<and> getattr_plural (libinstance self) plural_identifier (fst w3)
                = ipre @ (sname, session) # ipost
            \<and> switch_back (libinstance self) sid session ipre w3 = (Inr (), w4)
            \<and> switch (libinstance self) sid sname (fst w4) = (Inl r', lib'')
            \<longrightarrow> Keyword_call self a kw lib
                  = (Inl r', (lib'', snd w4 @ [SessionRestore sid sname])))"
proof (intro conjI impI)
  assume h: "current_contexts = pre @ (cid, ctxname) # post
          \<and> restore_contexts (libinstance self) pre w = (Inr (), w1)
          \<and> switch (libinstance self) cid ctxname (fst w1) = (Inl r, lib')"
  then have "restore_contexts (libinstance self) current_contexts w
               = (Inl r, (lib', snd w1 @ [ContextRestore cid ctxname]))"
    using restore_contexts_first_error [of "libinstance self" pre w w1 cid ctxname r lib' post]
    by simp
  then show "Keyword_call self a kw lib
               = (Inl r, (lib', snd w1 @ [ContextRestore cid ctxname]))"
    using assms by (simp add: Keyword_call_def restore_def)
next
  assume h: "restore_contexts (libinstance self) current_contexts w = (Inr (), w2)
            \<and> current_sessions = spre @ ((sid, plural_identifier), session) # spost
            \<and> restore_sessions (libinstance self) spre w2 = (Inr (), w3)
            \<and> getattr_plural (libinstance self) plural_identifier (fst w3)
                = ipre @ (sname, session) # ipost
            \<and> switch_back (libinstance self) sid session ipre w3 = (Inr (), w4)
            \<and> switch (libinstance self) sid sname (fst w4) = (Inl r', lib'')"
  then have "restore_sessions (libinstance self) current_sessions w2
               = (Inl r', (lib'', snd w4 @ [SessionRestore sid sname]))"
    using restore_sessions_first_error
            [of "libinstance self" spre w2 w3 plural_identifier ipre sname session ipost sid w4
                r' lib'' spost]
    by simp
  then show "Keyword_call self a kw lib
               = (Inl r', (lib'', snd w4 @ [SessionRestore sid sname]))"
    using assms h by (simp add: Keyword_call_def restore_def)
qed

theorem C3_restoration_error_supersedes_witness:
  "fst (Keyword_call show_keyword [] [(''mode'', VStr ''slow'')] idle_state) =
     Inl \<lparr> exc_type = ''ModeError'', exc_bases = [''Exception''], exc_value = ''None'',
           exc_traceback = [''switch_mode''] \<rparr>
   \<and> snd (snd (Keyword_call show_keyword [] [(''mode'', VStr ''slow'')] idle_state)) =
       [ContextSwitch ''mode'' (VStr ''slow''), Invoke (Some slow_context) [] [],
        ContextRestore ''mode'' VNone]
   \<and> Keyword_call flaky_fetch_keyword [VStr ''x''] [(''connection'', VStr ''B'')] 0 =
       (Inl lost_error,
        (2, [SessionSwitch ''connection'' (VStr ''B''), Invoke None [VStr ''x''] [],
             SessionRestore ''connection'' (VStr ''A'')]))"
proof -
  let ?l3 = "idle_state\<lparr> current_context := (current_context idle_state)(''mode'' := VStr ''slow''),
                          own := [VStr ''tried''] \<rparr>"
  let ?w = "(?l3, [ContextSwitch ''mode'' (VStr ''slow''), Invoke (Some slow_context) [] []])"
  let ?r = "\<lparr> exc_type = ''ModeError'', exc_bases = [''Exception''], exc_value = ''None'',
              exc_traceback = [''switch_mode''] \<rparr>"
  have sc: "switch_and_call show_keyword [] [(''mode'', VStr ''slow'')] idle_state =
        Inr (Inl value_error, [], [(''mode'', VNone)], ?w)"
    by (simp add: call_defs example_defs)
  have c: "[(''mode'', VNone)] = [] @ (''mode'', VNone) # []
          \<and> restore_contexts (libinstance show_keyword) [] ?w = (Inr (), ?w)
          \<and> switch (libinstance show_keyword) ''mode'' VNone (fst ?w) = (Inl ?r, ?l3)"
    by (simp add: call_defs example_defs)
  have one: "Keyword_call show_keyword [] [(''mode'', VStr ''slow'')] idle_state
               = (Inl ?r, (?l3, snd ?w @ [ContextRestore ''mode'' VNone]))"
    using C3_restoration_error_supersedes
            [where pre = "[]" and cid = "''mode''" and ctxname = VNone and post = "[]"
               and ?w1.0 = ?w and r = ?r and lib' = ?l3, OF sc, THEN conjunct1, THEN mp, OF c] .
  let ?v = "(1::nat, [SessionSwitch ''connection'' (VStr ''B''), Invoke None [VStr ''x''] []])"
  have sc2: "switch_and_call flaky_fetch_keyword [VStr ''x''] [(''connection'', VStr ''B'')] 0 =
        Inr (Inl value_error, [((''connection'', ''connections''), Ref 1)], [], ?v)"
    by (simp add: call_defs example_defs)
  have s: "restore_contexts (libinstance flaky_fetch_keyword) [] ?v = (Inr (), ?v)
            \<and> [((''connection'', ''connections''), Ref 1)]
                = [] @ ((''connection'', ''connections''), Ref 1) # []
            \<and> restore_sessions (libinstance flaky_fetch_keyword) [] ?v = (Inr (), ?v)
            \<and> getattr_plural (libinstance flaky_fetch_keyword) ''connections'' (fst ?v)
                = [] @ (VStr ''A'', Ref 1) # []
            \<and> switch_back (libinstance flaky_fetch_keyword) ''connection'' (Ref 1) [] ?v
                = (Inr (), ?v)
            \<and> switch (libinstance flaky_fetch_keyword) ''connection'' (VStr ''A'') (fst ?v)
                = (Inl lost_error, 2)"
    by (simp add: call_defs example_defs)
  have two: "Keyword_call flaky_fetch_keyword [VStr ''x''] [(''connection'', VStr ''B'')] 0
               = (Inl lost_error, (2, snd ?v @ [SessionRestore ''connection'' (VStr ''A'')]))"
    using C3_restoration_error_supersedes
            [where ?w2.0 = ?v and spre = "[]" and sid = "''connection''"
               and plural_identifier = "''connections''" and session = "Ref 1" and spost = "[]"
               and ?w3.0 = ?v and ipre = "[]" and sname = "VStr ''A''" and ipost = "[]"
               and ?w4.0 = ?v and r' = lost_error and lib'' = 2,
             OF sc2, THEN conjunct2, THEN mp, OF s] .
  show ?thesis using one two by simp
qed

text \<open>
  C4.  When the switch of a session handler raises its \<open>SessionError\<close>, after the
  handlers \<open>pre\<close> before it were gone through without an error, the call does nothing
  more than the restoration of the sessions recorded for \<open>pre\<close>: after the failed
  switch the log holds only switches of that restoration, and before it only the
  session switches of \<open>pre\<close>.  So no later session handler is switched, no context is
  switched or restored, and the implementation is not invoked.
\<close>

theorem C4_session_switch_failure_stops:
  assumes "map snd (session_handlers (libinstance self)) = pre @ hcls # post"
      and "switch_sessions (libinstance self) pre kw [] (lib, []) = Inr (None, kw1, cs1, (lib1, log1))"
      and "auto_explicit hcls"
      and "map_of kw1 (identifier_name hcls) = Some sname"
      and "switch (libinstance self) (identifier_name hcls) sname lib1 = (Inl e, lib2)"
      and "isinstance_exc e (SessionError hcls)"
  shows "Keyword_call self a kw lib =
           (case restore_sessions (libinstance self) cs1
                   (lib2, log1 @ [SessionSwitch (identifier_name hcls) sname]) of
              (Inl r, w') \<Rightarrow> (Inl r, w')
            | (Inr u, w') \<Rightarrow> (Inl e, w'))
         \<and> (\<exists>log3. snd (snd (Keyword_call self a kw lib))
                      = log1 @ SessionSwitch (identifier_name hcls) sname # log3
               \<and> (\<forall>ev \<in> set log3. \<exists>k v. k \<in> fst ` set cs1 \<and> ev = SessionRestore (fst k) v))
         \<and> (\<forall>ev \<in> set log1. \<exists>h v. h \<in> set pre \<and> ev = SessionSwitch (identifier_name h) v)"
proof -
  let ?L = "libinstance self"
  let ?w = "(lib2, log1 @ [SessionSwitch (identifier_name hcls) sname])"
  have f: "switch_sessions ?L (map snd (session_handlers ?L)) kw [] (lib, []) =
             Inr (Some e, dict_pop (identifier_name hcls) kw1, cs1, ?w)"
    using switch_sessions_fails_at [OF assms(2) assms(3) assms(4), of e lib2 post] assms(1,5,6)
    by simp
  have eq: "Keyword_call self a kw lib =
           (case restore_sessions ?L cs1 ?w of
              (Inl r, w') \<Rightarrow> (Inl r, w')
            | (Inr u, w') \<Rightarrow> (Inl e, w'))"
    by (rule Keyword_call_session_error [OF f])
  obtain r3 w3 where r: "restore_sessions ?L cs1 ?w = (r3, w3)"
    by (cases "restore_sessions ?L cs1 ?w")
  from restore_sessions_log [OF r] obtain log3 where
    l3: "snd w3 = snd ?w @ log3"
        "\<forall>ev \<in> set log3. \<exists>k v. k \<in> fst ` set cs1 \<and> ev = SessionRestore (fst k) v" by blast
  have "snd (snd (Keyword_call self a kw lib)) = snd w3"
    using eq r by (cases r3) simp_all
  then have "snd (snd (Keyword_call self a kw lib))
                = log1 @ SessionSwitch (identifier_name hcls) sname # log3"
    using l3(1) by simp
  then have part2: "\<exists>log3. snd (snd (Keyword_call self a kw lib))
                      = log1 @ SessionSwitch (identifier_name hcls) sname # log3
               \<and> (\<forall>ev \<in> set log3. \<exists>k v. k \<in> fst ` set cs1 \<and> ev = SessionRestore (fst k) v)"
    using l3(2) by (intro exI [of _ log3] conjI)
  from switch_sessions_log [OF assms(2)] obtain log where
    "snd (lib1, log1) = snd (lib, []) @ log"
    "\<forall>ev \<in> set log. \<exists>h v. h \<in> set pre \<and> ev = SessionSwitch (identifier_name h) v" by blast
  then have part3: "\<forall>ev \<in> set log1. \<exists>h v. h \<in> set pre \<and> ev = SessionSwitch (identifier_name h) v"
    by simp
  show ?thesis using eq part2 part3 by (intro conjI)
qed

theorem C4_session_switch_failure_stops_witness:
  "fst (Keyword_call duo_show_keyword []
          [(''connection'', VStr ''B''), (''channel'', VStr ''X''), (''mode'', VStr ''fast'')]
          demo_state) =
     Inl \<lparr> exc_type = ''ChannelError'', exc_bases = [''Exception''], exc_value = ''X'',
           exc_traceback = [''switch_channel''] \<rparr>
   \<and> snd (snd (Keyword_call duo_show_keyword []
          [(''connection'', VStr ''B''), (''channel'', VStr ''X''), (''mode'', VStr ''fast'')]
          demo_state)) =
       [SessionSwitch ''connection'' (VStr ''B''), SessionSwitch ''channel'' (VStr ''X''),
        SessionRestore ''connection'' (VStr ''A'')]"
proof -
  let ?kw = "[(''connection'', VStr ''B''), (''channel'', VStr ''X''), (''mode'', VStr ''fast'')]"
  let ?lib1 = "demo_state\<lparr> current_session := (current_session demo_state)(''connection'' := Ref 2) \<rparr>"
  let ?e = "\<lparr> exc_type = ''ChannelError'', exc_bases = [''Exception''], exc_value = ''X'',
              exc_traceback = [''switch_channel''] \<rparr>"
  have h1: "map snd (session_handlers (libinstance duo_show_keyword)) =
              [connection_handler] @ channel_handler # []"
    by (simp add: call_defs duo_show_keyword_def duo_library_def spec_library_def)
  have h2: "switch_sessions (libinstance duo_show_keyword) [connection_handler] ?kw []
              (demo_state, []) =
            Inr (None, [(''channel'', VStr ''X''), (''mode'', VStr ''fast'')],
                 [((''connection'', ''connections''), Ref 1)],
                 (?lib1, [SessionSwitch ''connection'' (VStr ''B'')]))"
    by (simp add: call_defs example_defs)
  have h3: "auto_explicit channel_handler"
    by (simp add: channel_handler_def)
  have h4: "map_of [(''channel'', VStr ''X''), (''mode'', VStr ''fast'')]
              (identifier_name channel_handler) = Some (VStr ''X'')"
    by (simp add: channel_handler_def)
  have h5: "switch (libinstance duo_show_keyword) (identifier_name channel_handler)
              (VStr ''X'') ?lib1 = (Inl ?e, ?lib1)"
    by (simp add: call_defs example_defs)
  have h6: "isinstance_exc ?e (SessionError channel_handler)"
    by (simp add: isinstance_exc_def channel_handler_def)
  have r: "restore_sessions (libinstance duo_show_keyword)
             [((''connection'', ''connections''), Ref 1)]
             (?lib1, [SessionSwitch ''connection'' (VStr ''B'')]
                     @ [SessionSwitch (identifier_name channel_handler) (VStr ''X'')]) =
           (Inr (), (?lib1\<lparr> current_session := (current_session ?lib1)(''connection'' := Ref 1) \<rparr>,
              [SessionSwitch ''connection'' (VStr ''B''), SessionSwitch ''channel'' (VStr ''X''),
               SessionRestore ''connection'' (VStr ''A'')]))"
    by (simp add: call_defs example_defs)
  have eq: "Keyword_call duo_show_keyword [] ?kw demo_state =
          (case restore_sessions (libinstance duo_show_keyword)
                  [((''connection'', ''connections''), Ref 1)]
                  (?lib1, [SessionSwitch ''connection'' (VStr ''B'')]
                          @ [SessionSwitch (identifier_name channel_handler) (VStr ''X'')]) of
             (Inl r, w') \<Rightarrow> (Inl r, w')
           | (Inr u, w') \<Rightarrow> (Inl ?e, w'))"
    using C4_session_switch_failure_stops [OF h1 h2 h3 h4 h5 h6, of "[]", THEN conjunct1] .
  show ?thesis unfolding eq r by simp
qed

text \<open>
  C5, as the code has it.  An \<open>auto_explicit\<close> session handler \<open>hcls\<close> whose
  identifier is a key of \<open>kwargs\<close> is reached after the handlers \<open>pre\<close> before it
  were gone through without an error.  \<open>__call__\<close> reads the current session before
  the switch.  When the switch returns, that session is stored in \<open>current_sessions\<close>
  and is still there when the loop ends.  When the switch raises the handler's
  \<open>SessionError\<close>, the loop ends with \<open>current_sessions\<close> as it was, which has no
  entry for the identifier of \<open>hcls\<close>, and the call makes no switch back for that
  identifier: after the failed switch it only switches back the sessions recorded for
  \<open>pre\<close>.
\<close>

theorem C5_previous_session_recorded_after_switch:
  assumes "map snd (session_handlers (libinstance self)) = pre @ hcls # post"
      and "switch_sessions (libinstance self) pre kw [] (lib, [])
             = Inr (None, kw1, cs1, (lib1, log1))"
      and "auto_explicit hcls"
      and "map_of kw1 (identifier_name hcls) = Some sname"
  shows "(switch (libinstance self) (identifier_name hcls) sname lib1 = (Inr (), lib2) \<longrightarrow>
            switch_sessions (libinstance self) (pre @ [hcls]) kw [] (lib, [])
              = Inr (None, dict_pop (identifier_name hcls) kw1,
                     dict_set (identifier_name hcls, plural_identifier_name hcls)
                       (getattr_session (libinstance self) (identifier_name hcls) lib1) cs1,
                     (lib2, log1 @ [SessionSwitch (identifier_name hcls) sname]))
            \<and> (\<forall>err kw' cs' w'.
                  switch_sessions (libinstance self)
                    (map snd (session_handlers (libinstance self))) kw [] (lib, [])
                    = Inr (err, kw', cs', w')
                  \<longrightarrow> map_of cs' (identifier_name hcls, plural_identifier_name hcls)
                        = Some (getattr_session (libinstance self) (identifier_name hcls) lib1)))
         \<and> (switch (libinstance self) (identifier_name hcls) sname lib1 = (Inl e, lib2)
            \<and> isinstance_exc e (SessionError hcls) \<longrightarrow>
            switch_sessions (libinstance self)
                (map snd (session_handlers (libinstance self))) kw [] (lib, [])
              = Inr (Some e, dict_pop (identifier_name hcls) kw1, cs1,
                     (lib2, log1 @ [SessionSwitch (identifier_name hcls) sname]))
            \<and> identifier_name hcls \<notin> fst ` fst ` set cs1
            \<and> (\<forall>v. SessionRestore (identifier_name hcls) v
                      \<notin> set (snd (snd (Keyword_call self a kw lib))))
            \<and> (\<exists>log3. snd (snd (Keyword_call self a kw lib))
                         = log1 @ SessionSwitch (identifier_name hcls) sname # log3
                  \<and> (\<forall>ev \<in> set log3. \<exists>k v. k \<in> fst ` set cs1 \<and> ev = SessionRestore (fst k) v)))"
proof -
  let ?L = "libinstance self"
  let ?i = "identifier_name hcls"
  let ?pl = "plural_identifier_name hcls"
  let ?all = "map snd (session_handlers ?L)"
  have popped: "\<forall>k \<in> fst ` set cs1. map_of kw1 (fst k) = None"
    by (rule switch_sessions_popped [OF assms(2)]) simp
  have fresh: "?i \<notin> fst ` fst ` set cs1"
  proof
    assume "?i \<in> fst ` fst ` set cs1"
    then obtain k where k: "k \<in> fst ` set cs1" "fst k = ?i"
      by (metis imageE)
    from popped k(1) have "map_of kw1 (fst k) = None" by (rule bspec)
    with k(2) have "map_of kw1 ?i = None" by simp
    with assms(4) show False by simp
  qed
  have returned: "switch ?L ?i sname lib1 = (Inr (), lib2) \<longrightarrow>
            switch_sessions ?L (pre @ [hcls]) kw [] (lib, [])
              = Inr (None, dict_pop ?i kw1, dict_set (?i, ?pl) (getattr_session ?L ?i lib1) cs1,
                     (lib2, log1 @ [SessionSwitch ?i sname]))
            \<and> (\<forall>err kw' cs' w'. switch_sessions ?L ?all kw [] (lib, []) = Inr (err, kw', cs', w')
                  \<longrightarrow> map_of cs' (?i, ?pl) = Some (getattr_session ?L ?i lib1))"
  proof (rule impI)
    assume sw: "switch ?L ?i sname lib1 = (Inr (), lib2)"
    let ?kw2 = "dict_pop ?i kw1"
    let ?cs2 = "dict_set (?i, ?pl) (getattr_session ?L ?i lib1) cs1"
    let ?w2 = "(lib2, log1 @ [SessionSwitch ?i sname])"
    have step: "switch_sessions ?L (pre @ [hcls]) kw [] (lib, []) = Inr (None, ?kw2, ?cs2, ?w2)"
      using assms(2) assms(3) assms(4) sw
      by (simp add: switch_sessions_append call_switch_def)
    have whole: "switch_sessions ?L ?all kw [] (lib, []) = switch_sessions ?L post ?kw2 ?cs2 ?w2"
      using assms(1) step switch_sessions_append [of ?L "pre @ [hcls]" post kw "[]" "(lib, [])"]
      by simp
    have kept: "\<forall>err kw' cs' w'. switch_sessions ?L ?all kw [] (lib, []) = Inr (err, kw', cs', w')
                  \<longrightarrow> map_of cs' (?i, ?pl) = Some (getattr_session ?L ?i lib1)"
    proof (intro allI impI)
      fix err kw' cs' w'
      assume "switch_sessions ?L ?all kw [] (lib, []) = Inr (err, kw', cs', w')"
      with whole have run: "switch_sessions ?L post ?kw2 ?cs2 ?w2 = Inr (err, kw', cs', w')"
        by simp
      show "map_of cs' (?i, ?pl) = Some (getattr_session ?L ?i lib1)"
        by (rule switch_sessions_keeps_entry [OF run])
           (simp_all add: map_of_dict_pop map_of_dict_set)
    qed
    from step kept
    show "switch_sessions ?L (pre @ [hcls]) kw [] (lib, []) = Inr (None, ?kw2, ?cs2, ?w2)
            \<and> (\<forall>err kw' cs' w'. switch_sessions ?L ?all kw [] (lib, []) = Inr (err, kw', cs', w')
                  \<longrightarrow> map_of cs' (?i, ?pl) = Some (getattr_session ?L ?i lib1))"
      by (rule conjI)
  qed
  have raised: "switch ?L ?i sname lib1 = (Inl e, lib2) \<and> isinstance_exc e (SessionError hcls) \<longrightarrow>
            switch_sessions ?L ?all kw [] (lib, [])
              = Inr (Some e, dict_pop ?i kw1, cs1, (lib2, log1 @ [SessionSwitch ?i sname]))
            \<and> ?i \<notin> fst ` fst ` set cs1
            \<and> (\<forall>v. SessionRestore ?i v \<notin> set (snd (snd (Keyword_call self a kw lib))))
            \<and> (\<exists>log3. snd (snd (Keyword_call self a kw lib)) = log1 @ SessionSwitch ?i sname # log3
                  \<and> (\<forall>ev \<in> set log3. \<exists>k v. k \<in> fst ` set cs1 \<and> ev = SessionRestore (fst k) v))"
  proof (rule impI)
    assume h: "switch ?L ?i sname lib1 = (Inl e, lib2) \<and> isinstance_exc e (SessionError hcls)"
    let ?w = "(lib2, log1 @ [SessionSwitch ?i sname])"
    have f: "switch_sessions ?L ?all kw [] (lib, []) = Inr (Some e, dict_pop ?i kw1, cs1, ?w)"
      using switch_sessions_fails_at [OF assms(2) assms(3) assms(4), of e lib2 post] assms(1) h
      by simp
    have eq: "Keyword_call self a kw lib =
           (case restore_sessions ?L cs1 ?w of
              (Inl r, w') \<Rightarrow> (Inl r, w')
            | (Inr u, w') \<Rightarrow> (Inl e, w'))"
      by (rule Keyword_call_session_error [OF f])
    obtain r3 w3 where r: "restore_sessions ?L cs1 ?w = (r3, w3)"
      by (cases "restore_sessions ?L cs1 ?w")
    from restore_sessions_log [OF r] obtain log3 where
      l3: "snd w3 = snd ?w @ log3"
          "\<forall>ev \<in> set log3. \<exists>k v. k \<in> fst ` set cs1 \<and> ev = SessionRestore (fst k) v" by blast
    have "snd (snd (Keyword_call self a kw lib)) = snd w3"
      using eq r by (cases r3) simp_all
    then have lg: "snd (snd (Keyword_call self a kw lib)) = log1 @ SessionSwitch ?i sname # log3"
      using l3(1) by simp
    from switch_sessions_log [OF assms(2)] obtain log where
      "snd (lib1, log1) = snd (lib, []) @ log"
      "\<forall>ev \<in> set log. \<exists>h v. h \<in> set pre \<and> ev = SessionSwitch (identifier_name h) v" by blast
    then have l1: "\<forall>ev \<in> set log1. \<exists>h v. h \<in> set pre \<and> ev = SessionSwitch (identifier_name h) v"
      by simp
    have none: "\<forall>v. SessionRestore ?i v \<notin> set (snd (snd (Keyword_call self a kw lib)))"
    proof (intro allI notI)
      fix v
      assume "SessionRestore ?i v \<in> set (snd (snd (Keyword_call self a kw lib)))"
      with lg have "SessionRestore ?i v \<in> set log1 \<or> SessionRestore ?i v \<in> set log3" by auto
      then show False
      proof
        assume "SessionRestore ?i v \<in> set log1"
        with l1 obtain h u where "SessionRestore ?i v = SessionSwitch (identifier_name h) u"
          by blast
        then show False by simp
      next
        assume "SessionRestore ?i v \<in> set log3"
        with l3(2) obtain k u where "k \<in> fst ` set cs1" "SessionRestore ?i v = SessionRestore (fst k) u"
          by blast
        then have "k \<in> fst ` set cs1" "fst k = ?i" by simp_all
        then have "?i \<in> fst ` fst ` set cs1" by (metis imageI)
        with fresh show False by simp
      qed
    qed
    have shape: "\<exists>log3. snd (snd (Keyword_call self a kw lib)) = log1 @ SessionSwitch ?i sname # log3
                  \<and> (\<forall>ev \<in> set log3. \<exists>k v. k \<in> fst ` set cs1 \<and> ev = SessionRestore (fst k) v)"
      using lg l3(2) by (intro exI [of _ log3] conjI)
    from f fresh none shape
    show "switch_sessions ?L ?all kw [] (lib, [])
              = Inr (Some e, dict_pop ?i kw1, cs1, (lib2, log1 @ [SessionSwitch ?i sname]))
            \<and> ?i \<notin> fst ` fst ` set cs1
            \<and> (\<forall>v. SessionRestore ?i v \<notin> set (snd (snd (Keyword_call self a kw lib))))
            \<and> (\<exists>log3. snd (snd (Keyword_call self a kw lib)) = log1 @ SessionSwitch ?i sname # log3
                  \<and> (\<forall>ev \<in> set log3. \<exists>k v. k \<in> fst ` set cs1 \<and> ev = SessionRestore (fst k) v))"
      by (intro conjI)
  qed
  from returned raised show ?thesis by (rule conjI)
qed

theorem C5_previous_session_recorded_after_switch_witness:
  "switch_sessions (libinstance duo_show_keyword)
       (map snd (session_handlers (libinstance duo_show_keyword)))
       [(''connection'', VStr ''B''), (''channel'', VStr ''X'')] [] (demo_state, [])
     = Inr (Some \<lparr> exc_type = ''ChannelError'', exc_bases = [''Exception''],
                   exc_value = ''X'', exc_traceback = [''switch_channel''] \<rparr>,
            [], [((''connection'', ''connections''), Ref 1)],
            (demo_state\<lparr> current_session := (current_session demo_state)(''connection'' := Ref 2) \<rparr>,
             [SessionSwitch ''connection'' (VStr ''B''), SessionSwitch ''channel'' (VStr ''X'')]))
   \<and> getattr_session (libinstance duo_show_keyword) ''connection'' demo_state = Ref 1
   \<and> ''channel'' \<notin> fst ` fst ` set [((''connection'', ''connections''), Ref 1)]
   \<and> SessionRestore ''channel'' (VStr ''X'')
       \<notin> set (snd (snd (Keyword_call duo_show_keyword []
                  [(''connection'', VStr ''B''), (''channel'', VStr ''X'')] demo_state)))
   \<and> snd (snd (Keyword_call duo_show_keyword []
          [(''connection'', VStr ''B''), (''channel'', VStr ''X'')] demo_state))
       = [SessionSwitch ''connection'' (VStr ''B''), SessionSwitch ''channel'' (VStr ''X''),
          SessionRestore ''connection'' (VStr ''A'')]"
proof -
  let ?L = "libinstance duo_show_keyword"
  let ?kw = "[(''connection'', VStr ''B''), (''channel'', VStr ''X'')]"
  let ?lib1 = "demo_state\<lparr> current_session := (current_session demo_state)(''connection'' := Ref 2) \<rparr>"
  let ?e = "\<lparr> exc_type = ''ChannelError'', exc_bases = [''Exception''], exc_value = ''X'',
              exc_traceback = [''switch_channel''] \<rparr>"
  have a1: "map snd (session_handlers ?L) = [] @ connection_handler # [channel_handler]"
    by (simp add: call_defs duo_show_keyword_def duo_library_def spec_library_def)
  have a2: "switch_sessions ?L [] ?kw [] (demo_state, []) = Inr (None, ?kw, [], (demo_state, []))"
    by simp
  have a3: "auto_explicit connection_handler"
    by (simp add: connection_handler_def)
  have a4: "map_of ?kw (identifier_name connection_handler) = Some (VStr ''B'')"
    by (simp add: connection_handler_def)
  have a5: "switch ?L (identifier_name connection_handler) (VStr ''B'') demo_state = (Inr (), ?lib1)"
    by (simp add: call_defs example_defs)
  note first = C5_previous_session_recorded_after_switch
      [where self = duo_show_keyword and pre = "[]" and hcls = connection_handler
         and post = "[channel_handler]" and kw = ?kw and lib = demo_state and ?kw1.0 = ?kw
         and ?cs1.0 = "[]" and ?lib1.0 = demo_state and ?log1.0 = "[]" and sname = "VStr ''B''"
         and ?lib2.0 = ?lib1 and a = "[]",
       OF a1 a2 a3 a4, THEN conjunct1, THEN mp, OF a5]
  have b1: "map snd (session_handlers ?L) = [connection_handler] @ channel_handler # []"
    by (simp add: call_defs duo_show_keyword_def duo_library_def spec_library_def)
  have b2: "switch_sessions ?L [connection_handler] ?kw [] (demo_state, [])
              = Inr (None, [(''channel'', VStr ''X'')], [((''connection'', ''connections''), Ref 1)],
                     (?lib1, [SessionSwitch ''connection'' (VStr ''B'')]))"
    by (simp add: call_defs example_defs)
  have b3: "auto_explicit channel_handler"
    by (simp add: channel_handler_def)
  have b4: "map_of [(''channel'', VStr ''X'')] (identifier_name channel_handler) = Some (VStr ''X'')"
    by (simp add: channel_handler_def)
  have b5: "switch ?L (identifier_name channel_handler) (VStr ''X'') ?lib1 = (Inl ?e, ?lib1)
            \<and> isinstance_exc ?e (SessionError channel_handler)"
    by (simp add: call_defs example_defs)
  note second = C5_previous_session_recorded_after_switch
      [where self = duo_show_keyword and pre = "[connection_handler]" and hcls = channel_handler
         and post = "[]" and kw = ?kw and lib = demo_state
         and ?kw1.0 = "[(''channel'', VStr ''X'')]"
         and ?cs1.0 = "[((''connection'', ''connections''), Ref 1)]" and ?lib1.0 = ?lib1
         and ?log1.0 = "[SessionSwitch ''connection'' (VStr ''B'')]" and sname = "VStr ''X''"
         and e = ?e and ?lib2.0 = ?lib1 and a = "[]",
       OF b1 b2 b3 b4, THEN conjunct2, THEN mp, OF b5]
  have whole: "switch_sessions ?L (map snd (session_handlers ?L)) ?kw [] (demo_state, [])
     = Inr (Some ?e, [], [((''connection'', ''connections''), Ref 1)],
            (?lib1, [SessionSwitch ''connection'' (VStr ''B''), SessionSwitch ''channel'' (VStr ''X'')]))"
    using second [THEN conjunct1] by (simp add: dict_pop_def channel_handler_def)
  have recorded: "map_of [((''connection'', ''connections''), Ref 1)]
                    (identifier_name connection_handler, plural_identifier_name connection_handler)
                  = Some (getattr_session ?L (identifier_name connection_handler) demo_state)"
    using first [THEN conjunct2, THEN spec, THEN spec, THEN spec, THEN spec, THEN mp, OF whole] .
  have previous: "getattr_session ?L ''connection'' demo_state = Ref 1"
    using recorded by (simp add: connection_handler_def)
  have fresh: "''channel'' \<notin> fst ` fst ` set [((''connection'', ''connections''), Ref 1)]"
    using second [THEN conjunct2, THEN conjunct1] by (simp add: channel_handler_def)
  have none: "SessionRestore ''channel'' (VStr ''X'')
       \<notin> set (snd (snd (Keyword_call duo_show_keyword [] ?kw demo_state)))"
    using second [THEN conjunct2, THEN conjunct2, THEN conjunct1, THEN spec, of "VStr ''X''"]
    by (simp add: channel_handler_def)
  have lg: "snd (snd (Keyword_call duo_show_keyword [] ?kw demo_state))
       = [SessionSwitch ''connection'' (VStr ''B''), SessionSwitch ''channel'' (VStr ''X''),
          SessionRestore ''connection'' (VStr ''A'')]"
    by (simp add: call_defs example_defs)
  from whole previous fresh none lg show ?thesis by (intro conjI)
qed

text \<open>
  C5 as the spec states it fails: the switch of \<open>connection\<close> to the unknown alias
  \<open>C\<close> raises \<open>ConnectionError\<close>, the loop ends with an empty \<open>current_sessions\<close>
  (the previous session, the object \<open>Ref 1\<close>, is not in it), and the call makes no
  switch back.
\<close>

theorem C5_counterexample:
  "getattr_session demo_library ''connection'' demo_state = Ref 1
   \<and> switch_sessions demo_library [connection_handler] [(''connection'', VStr ''C'')] []
         (demo_state, []) =
       Inr (Some \<lparr> exc_type = ''ConnectionError'', exc_bases = [''Exception''],
                   exc_value = ''C'', exc_traceback = [''switch_connection''] \<rparr>,
            [], [], (demo_state, [SessionSwitch ''connection'' (VStr ''C'')]))
   \<and> snd (snd (Keyword_call fetch_keyword [VStr ''x''] [(''connection'', VStr ''C'')] demo_state))
       = [SessionSwitch ''connection'' (VStr ''C'')]"
  by (simp add: call_defs example_defs)

text \<open>
  C6, as the code has it.  The choice is made by the signature of the keyword
  function itself, \<open>self.func.argspec\<close>, not by the signature of the implementation
  chosen for the active contexts: if \<open>self.func.argspec.keywords\<close> is set or no named
  arguments are left, then the implementation (the last item of \<open>func.contexts\<close> whose
  context is active, or else \<open>self.func\<close>) is called with the library instance, the
  cast positional arguments and the named arguments as they are.
\<close>

theorem C6_direct_invocation:
  assumes "truthy (kwds (argspec (func self))) \<or> kw = []"
      and "typed_args (func self) a = Inr a'"
      and "f = resolve (contexts (func self)) (active_contexts (libinstance self) (fst w))"
  shows "call_func self a kw w =
           (case invoke self f a' kw w of
              (Inl e, w') \<Rightarrow> if isinstance_exc e ''Exception'' then Inr (Inl e, w') else Inl (e, w')
            | (Inr result, w') \<Rightarrow> Inr (Inr result, w'))
         \<and> invoke self f a' kw w =
             (case (case f of None \<Rightarrow> body (func self) | Some item \<Rightarrow> context_body (snd item))
                     (fst w) a' kw of
                (r, lib') \<Rightarrow> (r, (lib', snd w @ [Invoke (map_option fst f) a' kw])))
         \<and> f = (case filter (\<lambda>item. fst item \<in> set (active_contexts (libinstance self) (fst w)))
                        (contexts (func self)) of
                  [] \<Rightarrow> None | m # ms \<Rightarrow> Some (last (m # ms)))"
  using assms by (simp add: call_func_def dispatch_def invoke_def resolve_last_match)

theorem C6_direct_invocation_witness:
  "truthy (kwds (argspec (func send_keyword)))
   \<and> call_func send_keyword [VInt 5] [(''color'', VStr ''red'')] (demo_state, []) =
       Inr (Inr (VInt 1), (demo_state, [Invoke None [VInt 5] [(''color'', VStr ''red'')]]))
   \<and> truthy (kwds (argspec (func tell_keyword)))
   \<and> call_func tell_keyword [] [(''color'', VStr ''red'')] (demo_state, []) =
       Inr (Inl value_error,
            (demo_state\<lparr> own := [VStr ''tried''] \<rparr>,
             [Invoke (Some slow_context) [] [(''color'', VStr ''red'')]]))"
proof -
  let ?kw = "[(''color'', VStr ''red'')]"
  have s1: "truthy (kwds (argspec (func send_keyword))) \<or> ?kw = []"
    by (simp add: call_defs example_defs)
  have s2: "typed_args (func send_keyword) [VInt 5] = Inr [VInt 5]"
    by (simp add: call_defs example_defs)
  have s3: "None = resolve (contexts (func send_keyword))
                     (active_contexts (libinstance send_keyword) (fst (demo_state, [])))"
    by (simp add: call_defs example_defs)
  have si: "invoke send_keyword None [VInt 5] ?kw (demo_state, []) =
             (Inr (VInt 1), (demo_state, [Invoke None [VInt 5] ?kw]))"
    by (simp add: call_defs example_defs)
  have "call_func send_keyword [VInt 5] ?kw (demo_state, []) =
           (case invoke send_keyword None [VInt 5] ?kw (demo_state, []) of
              (Inl e, w') \<Rightarrow> if isinstance_exc e ''Exception'' then Inr (Inl e, w') else Inl (e, w')
            | (Inr result, w') \<Rightarrow> Inr (Inr result, w'))"
    using C6_direct_invocation [OF s1 s2 s3, THEN conjunct1] .
  then have one: "call_func send_keyword [VInt 5] ?kw (demo_state, []) =
       Inr (Inr (VInt 1), (demo_state, [Invoke None [VInt 5] ?kw]))"
    unfolding si by simp
  have t1: "truthy (kwds (argspec (func tell_keyword))) \<or> ?kw = []"
    by (simp add: call_defs example_defs)
  have t2: "typed_args (func tell_keyword) [] = Inr []"
    by (simp add: call_defs example_defs)
  have t3: "Some (slow_context, show_slow) =
              resolve (contexts (func tell_keyword))
                (active_contexts (libinstance tell_keyword) (fst (demo_state, [])))"
    by (simp add: call_defs example_defs)
  have ti: "invoke tell_keyword (Some (slow_context, show_slow)) [] ?kw (demo_state, []) =
             (Inl value_error,
              (demo_state\<lparr> own := [VStr ''tried''] \<rparr>, [Invoke (Some slow_context) [] ?kw]))"
    by (simp add: call_defs example_defs)
  have "call_func tell_keyword [] ?kw (demo_state, []) =
           (case invoke tell_keyword (Some (slow_context, show_slow)) [] ?kw (demo_state, []) of
              (Inl e, w') \<Rightarrow> if isinstance_exc e ''Exception'' then Inr (Inl e, w') else Inl (e, w')
            | (Inr result, w') \<Rightarrow> Inr (Inr result, w'))"
    using C6_direct_invocation [OF t1 t2 t3, THEN conjunct1] .
  then have two: "call_func tell_keyword [] ?kw (demo_state, []) =
       Inr (Inl value_error,
            (demo_state\<lparr> own := [VStr ''tried''] \<rparr>, [Invoke (Some slow_context) [] ?kw]))"
    unfolding ti by (simp add: isinstance_exc_def value_error_def)
  have k1: "truthy (kwds (argspec (func send_keyword)))"
    by (simp add: call_defs example_defs)
  have k2: "truthy (kwds (argspec (func tell_keyword)))"
    by (simp add: call_defs example_defs)
  from k1 one k2 two show ?thesis by (intro conjI)
qed

text \<open>
  C6 as the spec states it fails.  In the mode \<open>slow\<close> the implementation chosen for
  \<open>show\<close> declares \<open>**opts\<close>, while \<open>self.func.argspec\<close> declares no variadic-keyword
  parameter.  Called with \<open>color=red\<close>, the implementation is not called with that
  named argument: it receives the positional string \<open>color=red\<close>.
\<close>

theorem C6_counterexample:
  "resolve (contexts (func show_keyword))
     (active_contexts (libinstance show_keyword) demo_state) = Some (slow_context, show_slow)
   \<and> kwds (reflected show_slow) = Some ''opts''
   \<and> kwds (argspec (func show_keyword)) = None
   \<and> snd (snd (Keyword_call show_keyword [] [(''color'', VStr ''red'')] demo_state))
       = [Invoke (Some slow_context) [VStr ''color=red''] []]"
  by (simp add: call_defs example_defs)


text \<open>
  C7, as the code has it.  Without \<open>self.func.argspec.keywords\<close> and with named
  arguments, the implementation is called with: the positional arguments; then, in the
  order of the still unfilled names of \<open>self.func.argspec.args\<close>, the values of the
  named arguments with these names; then a string \<open>key=value\<close> for every named argument
  whose key is not in \<open>self.func.argspec.args\<close>.  The named arguments whose key is one
  of the first \<open>1 + len(args)\<close> names of \<open>self.func.argspec.args\<close> (the first binding
  and the positions already filled) are not turned into strings: they are passed on as
  named arguments.
\<close>

theorem C7_reshaped_invocation:
  assumes "\<not> truthy (kwds (argspec (func self)))"
      and "kw \<noteq> []"
      and "distinct (args (argspec (func self)))"
  shows "dispatch self f a kw w =
           Inr (invoke self f
                  (a @ List.map_filter (map_of kw) (drop (1 + length a) (args (argspec (func self))))
                     @ map (\<lambda>item. VStr (fst item @ ''='' @ py_str (snd item)))
                         (filter (\<lambda>item. fst item \<notin> set (args (argspec (func self)))) kw))
                  (filter (\<lambda>item. fst item \<in> set (take (1 + length a) (args (argspec (func self)))))
                     kw)
                  w)"
  using assms by (simp add: dispatch_def reshape_eq)

theorem C7_reshaped_invocation_witness:
  "\<not> truthy (kwds (argspec (func put_keyword)))
   \<and> distinct (args (argspec (func put_keyword)))
   \<and> dispatch put_keyword None [VInt 1] [(''y'', VInt 2), (''x'', VInt 3), (''z'', VInt 4)]
         (demo_state, []) =
       Inr (Inr (VInt 3),
            (demo_state, [Invoke None [VInt 1, VInt 2, VStr ''z=4''] [(''x'', VInt 3)]]))"
proof -
  have h1: "\<not> truthy (kwds (argspec (func put_keyword)))"
    by (simp add: call_defs example_defs)
  have h2: "[(''y'', VInt 2), (''x'', VInt 3), (''z'', VInt 4)] \<noteq> []" by simp
  have h3: "distinct (args (argspec (func put_keyword)))"
    by (simp add: call_defs example_defs)
  show ?thesis
    using h1 h3 C7_reshaped_invocation [OF h1 h2 h3, of None "[VInt 1]" "(demo_state, [])"]
    by (simp add: call_defs example_defs digits.simps)
qed

text \<open>
  C7 as the spec states it fails.  \<open>put(self, x, y)\<close> is called with the positional
  argument \<open>1\<close> (which fills \<open>x\<close>) and the named arguments \<open>y=2\<close>, \<open>x=3\<close>, \<open>z=4\<close>:
  \<open>x=3\<close> is left in \<open>kwargs\<close> after the first step, yet no string \<open>x=3\<close> is
  appended, and the call is not fully positional: \<open>x=3\<close> is passed as a named
  argument.
\<close>

theorem C7_counterexample:
  "kwds (argspec (func put_keyword)) = None
   \<and> snd (snd (Keyword_call put_keyword [VInt 1]
                  [(''y'', VInt 2), (''x'', VInt 3), (''z'', VInt 4)] demo_state))
       = [Invoke None [VInt 1, VInt 2, VStr ''z=4''] [(''x'', VInt 3)]]"
  by (simp add: call_defs example_defs digits.simps)

end
